theory Spec2Isabelle
  imports Main "HOL-Library.AList"
begin

section \<open>JavaScript values\<close>

text \<open>
  The values that reach the settings store: what \<^verbatim>\<open>JSON.parse\<close> can return, plus
  \<^verbatim>\<open>undefined\<close> (a missing argument, a missing key) and functions (the callbacks of
  the non-blocking calls; a callback is opaque, only the fact that it can be called
  matters). Numbers are the integers: fractions and exponents are floating point and
  stay outside the model. A string is a list of bytes (its UTF-8 form); an object is
  the list of its own properties, in insertion order, with distinct keys.
\<close>

datatype jsval =
    JUndefined
  | JNull
  | JBool bool
  | JNum int
  | JStr string
  | JArr "jsval list"
  | JObj "(string \<times> jsval) list"
  | JFun

datatype error =
    TypeError string
  | SyntaxError string
  | SystemError string
  | CipherError string

abbreviation DQ :: char where "DQ \<equiv> CHR 0x22"
abbreviation BSL :: char where "BSL \<equiv> CHR 0x5C"
abbreviation NL :: char where "NL \<equiv> CHR 0x0A"

text \<open>What \<^verbatim>\<open>if (x)\<close> tests.\<close>

fun truthy :: "jsval \<Rightarrow> bool" where
  "truthy JUndefined = False"
| "truthy JNull = False"
| "truthy (JBool b) = b"
| "truthy (JNum n) = (n \<noteq> 0)"
| "truthy (JStr s) = (s \<noteq> [])"
| "truthy (JArr xs) = True"
| "truthy (JObj kvs) = True"
| "truthy JFun = True"

text \<open>\<^verbatim>\<open>args[i]\<close> of a rest parameter: \<^verbatim>\<open>undefined\<close> past the end.\<close>

definition arg :: "jsval list \<Rightarrow> nat \<Rightarrow> jsval" where
  "arg args i = (if i < length args then args ! i else JUndefined)"

text \<open>Decimal digits of a number, and \<^verbatim>\<open>Array.prototype.join\<close> on strings.\<close>

definition digit_char :: "nat \<Rightarrow> char" where
  "digit_char d = ''0123456789abcdef'' ! d"

fun show_nat :: "nat \<Rightarrow> string" where
  "show_nat n =
     (if n < 10 then [digit_char n] else show_nat (n div 10) @ [digit_char (n mod 10)])"

declare show_nat.simps [simp del]

definition show_int :: "int \<Rightarrow> string" where
  "show_int i = (if i < 0 then CHR ''-'' # show_nat (nat (- i)) else show_nat (nat i))"

fun join :: "string \<Rightarrow> string list \<Rightarrow> string" where
  "join sep [] = []"
| "join sep [x] = x"
| "join sep (x # y # ys) = x @ sep @ join sep (y # ys)"

text \<open>
  The string \<^verbatim>\<open>join\<close> makes of an element: nothing for \<^verbatim>\<open>null\<close> and \<^verbatim>\<open>undefined\<close>,
  \<^verbatim>\<open>ToString\<close> otherwise. Only the string case is reached from a valid key path; the
  text of a function is not modelled.
\<close>

fun ToString :: "jsval \<Rightarrow> string" where
  "ToString JUndefined = ''undefined''"
| "ToString JNull = ''null''"
| "ToString (JBool b) = (if b then ''true'' else ''false'')"
| "ToString (JNum n) = show_int n"
| "ToString (JStr s) = s"
| "ToString (JArr xs) =
     join '','' (map (\<lambda>x. if x = JNull \<or> x = JUndefined then [] else ToString x) xs)"
| "ToString (JObj kvs) = ''[object Object]''"
| "ToString JFun = ''function''"

definition join_item :: "jsval \<Rightarrow> string" where
  "join_item v = (if v = JNull \<or> v = JUndefined then [] else ToString v)"

section \<open>Key paths (lib/settings.js, lines 87--148)\<close>

text \<open>
  \<^verbatim>\<open>flattenKeyPath\<close>: an array is mapped element by element and joined with a dot; any
  other value is returned as it is.
\<close>

fun flattenKeyPath :: "jsval \<Rightarrow> jsval" where
  "flattenKeyPath (JArr xs) =
     JStr (join ''.'' (map (\<lambda>item. join_item (flattenKeyPath item)) xs))"
| "flattenKeyPath JUndefined = JUndefined"
| "flattenKeyPath JNull = JNull"
| "flattenKeyPath (JBool b) = JBool b"
| "flattenKeyPath (JNum n) = JNum n"
| "flattenKeyPath (JStr s) = JStr s"
| "flattenKeyPath (JObj kvs) = JObj kvs"
| "flattenKeyPath JFun = JFun"

text \<open>
  \<^verbatim>\<open>isKeyPath\<close>: a string is a key path; an array is walked from the left, the first
  element that is no key path gives \<^verbatim>\<open>false\<close>, reaching the last element gives
  \<^verbatim>\<open>true\<close>; the loop over an empty array ends without a \<^verbatim>\<open>return\<close>, so the result is
  \<^verbatim>\<open>undefined\<close>. \<open>isKeyPath_loop\<close> is the \<^verbatim>\<open>for\<close> loop on the elements not yet visited
  (\<open>xs = []\<close> after the head is \<^verbatim>\<open>i === len - 1\<close>).
\<close>

fun isKeyPath :: "jsval \<Rightarrow> jsval"
  and isKeyPath_loop :: "jsval list \<Rightarrow> jsval" where
  "isKeyPath (JStr s) = JBool True"
| "isKeyPath (JArr xs) = isKeyPath_loop xs"
| "isKeyPath JUndefined = JBool False"
| "isKeyPath JNull = JBool False"
| "isKeyPath (JBool b) = JBool False"
| "isKeyPath (JNum n) = JBool False"
| "isKeyPath (JObj kvs) = JBool False"
| "isKeyPath JFun = JBool False"
| "isKeyPath_loop [] = JUndefined"
| "isKeyPath_loop (x # xs) =
     (if \<not> truthy (isKeyPath x) then JBool False
      else if xs = [] then JBool True
      else isKeyPath_loop xs)"

text \<open>
  The validity of a key path in the words of the specification: a string, or a non-empty
  array whose elements are all valid key paths.
\<close>

fun spec_valid_key_path :: "jsval \<Rightarrow> bool" where
  "spec_valid_key_path (JStr s) = True"
| "spec_valid_key_path (JArr xs) = (xs \<noteq> [] \<and> list_all spec_valid_key_path xs)"
| "spec_valid_key_path v = False"

text \<open>
  Normalisation in the words of the specification: a string is its own normal form, an
  array is the normal forms of its elements, left to right, joined with a dot.
\<close>

fun spec_normalize :: "jsval \<Rightarrow> string" where
  "spec_normalize (JStr s) = s"
| "spec_normalize (JArr xs) = join ''.'' (map spec_normalize xs)"
| "spec_normalize v = []"

section \<open>JSON text\<close>

text \<open>
  \<^verbatim>\<open>JSON.stringify(value, null, space)\<close> as ECMAScript defines it, on the values of the
  model: \<^verbatim>\<open>undefined\<close> and functions have no text (a property holding one is left out,
  an array element holding one is written \<^verbatim>\<open>null\<close>); a numeric \<^verbatim>\<open>space\<close> gives a gap
  of that many spaces, at most ten, and no gap below one.
\<close>

definition quote_char :: "char \<Rightarrow> string" where
  "quote_char c =
     (if c = CHR 0x08 then [BSL, CHR ''b'']
      else if c = CHR 0x09 then [BSL, CHR ''t'']
      else if c = NL then [BSL, CHR ''n'']
      else if c = CHR 0x0C then [BSL, CHR ''f'']
      else if c = CHR 0x0D then [BSL, CHR ''r'']
      else if c = DQ then [BSL, DQ]
      else if c = BSL then [BSL, BSL]
      else if (of_char c :: nat) < 32
        then [BSL, CHR ''u'', CHR ''0'', CHR ''0'',
              digit_char (of_char c div 16), digit_char (of_char c mod 16)]
      else [c])"

definition QuoteJSONString :: "string \<Rightarrow> string" where
  "QuoteJSONString s = DQ # concat (map quote_char s) @ [DQ]"

text \<open>
  The brackets around the texts of the elements: nothing between them when there is no
  element, the elements on one line when there is no gap, otherwise one element a line,
  indented by the enclosing indentation (\<open>stepback\<close>) plus the gap.
\<close>

definition wrap :: "char \<Rightarrow> char \<Rightarrow> string \<Rightarrow> string \<Rightarrow> string list \<Rightarrow> string" where
  "wrap opn cls gap stepback partial =
     (if partial = [] then [opn, cls]
      else if gap = [] then opn # join '','' partial @ [cls]
      else opn # NL # (stepback @ gap) @ join (CHR '','' # NL # stepback @ gap) partial
             @ NL # stepback @ [cls])"

fun SerializeJSONProperty :: "string \<Rightarrow> string \<Rightarrow> jsval \<Rightarrow> string option"
  and SerializeJSONArray :: "string \<Rightarrow> string \<Rightarrow> jsval list \<Rightarrow> string list"
  and SerializeJSONObject :: "string \<Rightarrow> string \<Rightarrow> (string \<times> jsval) list \<Rightarrow> string list" where
  "SerializeJSONProperty gap ind JUndefined = None"
| "SerializeJSONProperty gap ind JFun = None"
| "SerializeJSONProperty gap ind JNull = Some ''null''"
| "SerializeJSONProperty gap ind (JBool b) = Some (if b then ''true'' else ''false'')"
| "SerializeJSONProperty gap ind (JNum i) = Some (show_int i)"
| "SerializeJSONProperty gap ind (JStr s) = Some (QuoteJSONString s)"
| "SerializeJSONProperty gap ind (JArr xs) =
     Some (wrap CHR ''['' CHR '']'' gap ind (SerializeJSONArray gap (ind @ gap) xs))"
| "SerializeJSONProperty gap ind (JObj kvs) =
     Some (wrap CHR ''{'' CHR ''}'' gap ind (SerializeJSONObject gap (ind @ gap) kvs))"
| "SerializeJSONArray gap ind [] = []"
| "SerializeJSONArray gap ind (x # xs) =
     (case SerializeJSONProperty gap ind x of None \<Rightarrow> ''null'' | Some t \<Rightarrow> t)
       # SerializeJSONArray gap ind xs"
| "SerializeJSONObject gap ind [] = []"
| "SerializeJSONObject gap ind (kv # kvs) =
     (case SerializeJSONProperty gap ind (snd kv) of
        None \<Rightarrow> SerializeJSONObject gap ind kvs
      | Some t \<Rightarrow>
          (QuoteJSONString (fst kv) @ '':'' @ (if gap = [] then [] else '' '') @ t)
            # SerializeJSONObject gap ind kvs)"

definition JSON_stringify :: "jsval \<Rightarrow> int \<Rightarrow> string option" where
  "JSON_stringify v space =
     SerializeJSONProperty (replicate (nat (min 10 space)) CHR '' '') [] v"

text \<open>
  \<^verbatim>\<open>JSON.parse\<close>: a recursive-descent reader of the JSON grammar. White space is
  skipped around every token; a string takes the escapes of the grammar (an
  escape by four hexadecimal digits is read for the ASCII range, the range the writer
  produces); a
  number is \<^verbatim>\<open>-\<close>, then \<^verbatim>\<open>0\<close> or a digit string without a leading zero (a fraction or
  an exponent, outside the model's numbers, is a syntax error here); a repeated key
  keeps its first place and its last value. The recursion carries fuel, one unit a
  call; \<open>JSON_parse\<close> starts it with twice the length of the text and two, enough for
  every text \<open>JSON_stringify\<close> writes (\<open>JSON_parse_stringify\<close> below).
\<close>

definition is_ws :: "char \<Rightarrow> bool" where
  "is_ws c = (c = CHR '' '' \<or> c = CHR 0x09 \<or> c = NL \<or> c = CHR 0x0D)"

definition is_digit :: "char \<Rightarrow> bool" where
  "is_digit c = (48 \<le> (of_char c :: nat) \<and> (of_char c :: nat) \<le> 57)"

definition digit_val :: "char \<Rightarrow> nat" where
  "digit_val c = of_char c - 48"

definition hex_val :: "char \<Rightarrow> nat option" where
  "hex_val c =
     (let n = (of_char c :: nat) in
      if 48 \<le> n \<and> n \<le> 57 then Some (n - 48)
      else if 97 \<le> n \<and> n \<le> 102 then Some (n - 87)
      else if 65 \<le> n \<and> n \<le> 70 then Some (n - 55)
      else None)"

fun skip_ws :: "string \<Rightarrow> string" where
  "skip_ws [] = []"
| "skip_ws (c # cs) = (if is_ws c then skip_ws cs else c # cs)"

definition read_nat :: "string \<Rightarrow> nat" where
  "read_nat ds = foldl (\<lambda>a c. 10 * a + digit_val c) 0 ds"

definition unescape :: "char \<Rightarrow> char option" where
  "unescape e =
     (if e = DQ then Some DQ
      else if e = BSL then Some BSL
      else if e = CHR ''/'' then Some CHR ''/''
      else if e = CHR ''b'' then Some (CHR 0x08)
      else if e = CHR ''f'' then Some (CHR 0x0C)
      else if e = CHR ''n'' then Some NL
      else if e = CHR ''r'' then Some (CHR 0x0D)
      else if e = CHR ''t'' then Some (CHR 0x09)
      else None)"

definition hex4 :: "char \<Rightarrow> char \<Rightarrow> char \<Rightarrow> char \<Rightarrow> char option" where
  "hex4 a b c d =
     (case (hex_val a, hex_val b, hex_val c, hex_val d) of
        (Some p, Some q, Some r, Some s) \<Rightarrow>
          (let n = ((p * 16 + q) * 16 + r) * 16 + s in
           if n < 128 then Some (char_of n) else None)
      | _ \<Rightarrow> None)"

fun parse_string_chars :: "string \<Rightarrow> (string \<times> string) option" where
  "parse_string_chars [] = None"
| "parse_string_chars (c # cs) =
     (if c = DQ then Some ([], cs)
      else if c = BSL then
        (case cs of
           [] \<Rightarrow> None
         | e # cs1 \<Rightarrow>
             if e = CHR ''u'' then
               (case cs1 of
                  h1 # h2 # h3 # h4 # cs2 \<Rightarrow>
                    (case hex4 h1 h2 h3 h4 of
                       None \<Rightarrow> None
                     | Some ch \<Rightarrow> map_option (\<lambda>(s, r). (ch # s, r)) (parse_string_chars cs2))
                | _ \<Rightarrow> None)
             else
               (case unescape e of
                  None \<Rightarrow> None
                | Some ch \<Rightarrow> map_option (\<lambda>(s, r). (ch # s, r)) (parse_string_chars cs1)))
      else if (of_char c :: nat) < 32 then None
      else map_option (\<lambda>(s, r). (c # s, r)) (parse_string_chars cs))"

definition parse_nat :: "string \<Rightarrow> (nat \<times> string) option" where
  "parse_nat s =
     (case s of
        [] \<Rightarrow> None
      | c # cs \<Rightarrow>
          if c = CHR ''0'' then Some (0, cs)
          else if is_digit c then Some (read_nat (takeWhile is_digit s), dropWhile is_digit s)
          else None)"

definition parse_number :: "string \<Rightarrow> (jsval \<times> string) option" where
  "parse_number s =
     (case s of
        [] \<Rightarrow> None
      | c # cs \<Rightarrow>
          if c = CHR ''-'' then map_option (\<lambda>(n, r). (JNum (- int n), r)) (parse_nat cs)
          else map_option (\<lambda>(n, r). (JNum (int n), r)) (parse_nat s))"

definition parse_literal :: "string \<Rightarrow> (jsval \<times> string) option" where
  "parse_literal s =
     (if take 4 s = ''null'' then Some (JNull, drop 4 s)
      else if take 4 s = ''true'' then Some (JBool True, drop 4 s)
      else if take 5 s = ''false'' then Some (JBool False, drop 5 s)
      else parse_number s)"

definition CreateDataProperty ::
  "(string \<times> jsval) list \<Rightarrow> string \<times> jsval \<Rightarrow> (string \<times> jsval) list" where
  "CreateDataProperty obj kv = AList.update (fst kv) (snd kv) obj"

fun parse_value :: "nat \<Rightarrow> string \<Rightarrow> (jsval \<times> string) option"
  and parse_elements :: "nat \<Rightarrow> string \<Rightarrow> (jsval list \<times> string) option"
  and parse_members :: "nat \<Rightarrow> string \<Rightarrow> ((string \<times> jsval) list \<times> string) option" where
  "parse_value 0 s = None"
| "parse_value (Suc n) s =
     (case skip_ws s of
        [] \<Rightarrow> None
      | c # cs \<Rightarrow>
          if c = DQ then map_option (\<lambda>(t, r). (JStr t, r)) (parse_string_chars cs)
          else if c = CHR ''['' then
            (case skip_ws cs of
               [] \<Rightarrow> None
             | d # ds \<Rightarrow>
                 if d = CHR '']'' then Some (JArr [], ds)
                 else map_option (\<lambda>(vs, r). (JArr vs, r)) (parse_elements n cs))
          else if c = CHR ''{'' then
            (case skip_ws cs of
               [] \<Rightarrow> None
             | d # ds \<Rightarrow>
                 if d = CHR ''}'' then Some (JObj [], ds)
                 else map_option (\<lambda>(kvs, r). (JObj (foldl CreateDataProperty [] kvs), r))
                        (parse_members n cs))
          else parse_literal (c # cs))"
| "parse_elements 0 s = None"
| "parse_elements (Suc n) s =
     (case parse_value n s of
        None \<Rightarrow> None
      | Some (v, r) \<Rightarrow>
          (case skip_ws r of
             [] \<Rightarrow> None
           | c # cs \<Rightarrow>
               if c = CHR '','' then map_option (\<lambda>(vs, r'). (v # vs, r')) (parse_elements n cs)
               else if c = CHR '']'' then Some ([v], cs)
               else None))"
| "parse_members 0 s = None"
| "parse_members (Suc n) s =
     (case skip_ws s of
        [] \<Rightarrow> None
      | q # qs \<Rightarrow>
          if q \<noteq> DQ then None
          else
            (case parse_string_chars qs of
               None \<Rightarrow> None
             | Some (k, r) \<Rightarrow>
                 (case skip_ws r of
                    [] \<Rightarrow> None
                  | c # cs \<Rightarrow>
                      if c \<noteq> CHR '':'' then None
                      else
                        (case parse_value n cs of
                           None \<Rightarrow> None
                         | Some (v, r1) \<Rightarrow>
                             (case skip_ws r1 of
                                [] \<Rightarrow> None
                              | d # ds \<Rightarrow>
                                  if d = CHR '','' then
                                    map_option (\<lambda>(kvs, r'). ((k, v) # kvs, r'))
                                      (parse_members n ds)
                                  else if d = CHR ''}'' then Some ([(k, v)], ds)
                                  else None)))))"

definition JSON_parse :: "string \<Rightarrow> error + jsval" where
  "JSON_parse s =
     (case parse_value (2 * length s + 2) s of
        None \<Rightarrow> Inl (SyntaxError ''Unexpected token in JSON'')
      | Some (v, r) \<Rightarrow>
          if skip_ws r = [] then Inr v else Inl (SyntaxError ''Unexpected token in JSON''))"

text \<open>
  A JSON-representable value: no \<^verbatim>\<open>undefined\<close> and no function anywhere in it, and
  every object with distinct keys. Deep equality of two such values is their equality
  here.
\<close>

fun json_value :: "jsval \<Rightarrow> bool" where
  "json_value JUndefined = False"
| "json_value JFun = False"
| "json_value (JArr xs) = list_all json_value xs"
| "json_value (JObj kvs) =
     (distinct (map fst kvs) \<and> list_all (\<lambda>kv. json_value (snd kv)) kvs)"
| "json_value v = True"

section \<open>The key-path accessor\<close>

text \<open>
  Modelled from the spec: the package \<^verbatim>\<open>key-path-helpers\<close> (\<^verbatim>\<open>getValueAtKeyPath\<close>,
  \<^verbatim>\<open>hasKeyPath\<close>, \<^verbatim>\<open>setValueAtKeyPath\<close>, \<^verbatim>\<open>deleteValueAtKeyPath\<close>), which
  lib/settings.js calls and which is not among the sources. The definitions follow
  section 4.2 of the specification: the path is split at every dot that no backslash
  precedes, and a backslash with a dot stands for a dot inside a segment; the walk goes through
  mappings (objects), an array is a value like a number; a walk that leaves the
  mappings reads \<^verbatim>\<open>undefined\<close>; writing makes an empty mapping wherever the next
  segment needs one (over a missing key or over a value that is no mapping) and assigns
  at the last segment; deleting removes the last segment's key when its parent is
  there and is a mapping, and does nothing otherwise.

  The store hands the loaded document to the accessor and saves that same document
  afterwards (lib/settings.js, lines 731--735): the accessor changes it in place. A
  document that is no mapping has no key to assign or to remove, so writing and
  deleting return it as it is.
\<close>

fun splitKeyPath_from :: "string \<Rightarrow> string \<Rightarrow> string list" where
  "splitKeyPath_from seg [] = [seg]"
| "splitKeyPath_from seg [c] = (if c = CHR ''.'' then [seg, []] else [seg @ [c]])"
| "splitKeyPath_from seg (c # d # cs) =
     (if c = BSL \<and> d = CHR ''.'' then splitKeyPath_from (seg @ ''.'') cs
      else if c = CHR ''.'' then seg # splitKeyPath_from [] (d # cs)
      else splitKeyPath_from (seg @ [c]) (d # cs))"

definition splitKeyPath :: "string \<Rightarrow> string list" where
  "splitKeyPath keyPath = splitKeyPath_from [] keyPath"

fun get_at :: "jsval \<Rightarrow> string list \<Rightarrow> jsval" where
  "get_at v [] = v"
| "get_at (JObj kvs) (k # ks) =
     (case map_of kvs k of None \<Rightarrow> JUndefined | Some child \<Rightarrow> get_at child ks)"
| "get_at v (k # ks) = JUndefined"

text \<open>The mapping to walk into below a key: the one that is there, or a new empty one.\<close>

definition child_mapping :: "(string \<times> jsval) list \<Rightarrow> string \<Rightarrow> jsval" where
  "child_mapping kvs k =
     (case map_of kvs k of Some (JObj child) \<Rightarrow> JObj child | _ \<Rightarrow> JObj [])"

fun set_at :: "jsval \<Rightarrow> string list \<Rightarrow> jsval \<Rightarrow> jsval" where
  "set_at (JObj kvs) [k] x = JObj (AList.update k x kvs)"
| "set_at (JObj kvs) (k # k' # ks) x =
     JObj (AList.update k (set_at (child_mapping kvs k) (k' # ks) x) kvs)"
| "set_at v ks x = v"

fun delete_at :: "jsval \<Rightarrow> string list \<Rightarrow> jsval" where
  "delete_at (JObj kvs) [k] = JObj (AList.delete k kvs)"
| "delete_at (JObj kvs) (k # k' # ks) =
     (case map_of kvs k of
        Some (JObj child) \<Rightarrow> JObj (AList.update k (delete_at (JObj child) (k' # ks)) kvs)
      | _ \<Rightarrow> JObj kvs)"
| "delete_at v ks = v"

definition keyPathHelpers_getValueAtKeyPath :: "jsval \<Rightarrow> string \<Rightarrow> jsval" where
  "keyPathHelpers_getValueAtKeyPath obj keyPath = get_at obj (splitKeyPath keyPath)"

definition keyPathHelpers_hasKeyPath :: "jsval \<Rightarrow> string \<Rightarrow> bool" where
  "keyPathHelpers_hasKeyPath obj keyPath = (get_at obj (splitKeyPath keyPath) \<noteq> JUndefined)"

definition keyPathHelpers_setValueAtKeyPath :: "jsval \<Rightarrow> string \<Rightarrow> jsval \<Rightarrow> jsval" where
  "keyPathHelpers_setValueAtKeyPath obj keyPath val = set_at obj (splitKeyPath keyPath) val"

definition keyPathHelpers_deleteValueAtKeyPath :: "jsval \<Rightarrow> string \<Rightarrow> jsval" where
  "keyPathHelpers_deleteValueAtKeyPath obj keyPath = delete_at obj (splitKeyPath keyPath)"

text \<open>
  The key path a private method receives is \<^verbatim>\<open>null\<close> or the string
  \<^verbatim>\<open>flattenKeyPath\<close> made; the accessor is only called with a truthy one, a string.
\<close>

fun the_string :: "jsval \<Rightarrow> string" where
  "the_string (JStr s) = s"
| "the_string v = []"

section \<open>Configuration and codec (lib/settings.js, lines 215--364)\<close>

text \<open>
  The options the store reads after the constructor has laid the caller's options over
  the defaults. The directory and the file name only choose where the one settings file
  lives; the model has one directory and one file, so they are left out.
\<close>

record config =
  atomicSave :: bool
  encryptionAlgorithm :: string
  encryptionKey :: "string option"
  prettify :: bool
  numSpaces :: int

text \<open>
  Modelled from the spec: lib/defaults.js, which lib/settings.js requires and which is
  not among the sources; the values are those of the options table of section 6.
\<close>

definition defaults :: config where
  "defaults =
     \<lparr>atomicSave = True, encryptionAlgorithm = ''aes-256-cbc'', encryptionKey = None,
      prettify = False, numSpaces = 2\<rparr>"

text \<open>
  Node's \<^verbatim>\<open>crypto\<close> module is a parameter: what \<^verbatim>\<open>createCipher(algorithm, key)\<close> and
  \<^verbatim>\<open>createDecipher(algorithm, key)\<close> make of a whole buffer (\<^verbatim>\<open>update\<close> then
  \<^verbatim>\<open>final\<close>), or the error they throw (an unknown algorithm, a bad decrypt).
\<close>

record crypto =
  encipher :: "string \<Rightarrow> string \<Rightarrow> string \<Rightarrow> error + string"
  decipher :: "string \<Rightarrow> string \<Rightarrow> string \<Rightarrow> error + string"

text \<open>\<^verbatim>\<open>if (this._config.encryptionKey)\<close>: a key that is there and not the empty string.\<close>

definition encryption_on :: "config \<Rightarrow> bool" where
  "encryption_on cfg = (case encryptionKey cfg of None \<Rightarrow> False | Some k \<Rightarrow> k \<noteq> [])"

definition key_of :: "config \<Rightarrow> string" where
  "key_of cfg = (case encryptionKey cfg of None \<Rightarrow> [] | Some k \<Rightarrow> k)"

definition encryptData :: "crypto \<Rightarrow> config \<Rightarrow> string \<Rightarrow> error + string" where
  "encryptData cr cfg data = encipher cr (encryptionAlgorithm cfg) (key_of cfg) data"

definition decryptData :: "crypto \<Rightarrow> config \<Rightarrow> string \<Rightarrow> error + string" where
  "decryptData cr cfg buffer = decipher cr (encryptionAlgorithm cfg) (key_of cfg) buffer"

text \<open>
  \<^verbatim>\<open>_prepareSettingsData\<close>. The result is the data to write: \<open>None\<close> is \<^verbatim>\<open>undefined\<close>,
  what \<^verbatim>\<open>JSON.stringify\<close> returns for \<^verbatim>\<open>undefined\<close> and for a function;
  \<^verbatim>\<open>Buffer.from(undefined)\<close> throws a \<^verbatim>\<open>TypeError\<close>.
\<close>

definition prepareSettingsData :: "crypto \<Rightarrow> config \<Rightarrow> jsval \<Rightarrow> error + string option" where
  "prepareSettingsData cr cfg obj =
     (let numSp = (if prettify cfg then numSpaces cfg else 0);
          data = JSON_stringify obj numSp
      in if encryption_on cfg then
           (case data of
              None \<Rightarrow> Inl (TypeError ''The first argument must be a string or a Buffer'')
            | Some text \<Rightarrow>
                (case encryptData cr cfg text of Inl e \<Rightarrow> Inl e | Inr enc \<Rightarrow> Inr (Some enc)))
         else Inr data)"

definition reconstructSettingsData :: "crypto \<Rightarrow> config \<Rightarrow> string \<Rightarrow> error + jsval" where
  "reconstructSettingsData cr cfg data =
     (if encryption_on cfg then
        (case decryptData cr cfg data of Inl e \<Rightarrow> Inl e | Inr dec \<Rightarrow> JSON_parse dec)
      else JSON_parse data)"

section \<open>The file system\<close>

text \<open>
  The part of the file system the store touches: the settings directory and the
  settings file. \<open>dir_stat\<close> and \<open>file_stat\<close> are what \<^verbatim>\<open>fs.stat\<close> reports (\<open>None\<close>:
  it is there; an error with code \<^verbatim>\<open>ENOENT\<close>: it is missing; any other error: the
  check itself fails); \<open>file_data\<close> holds the bytes of the file when it is there.
  \<open>mkdirp_error\<close>, \<open>read_error\<close> and \<open>write_error\<close> say whether creating the
  directory, reading and writing fail, and how. \<open>undefined_data\<close> is what the write
  calls store when they are handed \<^verbatim>\<open>undefined\<close> (that depends on the version of the
  runtime). \<open>trace\<close> is the history of the calls made, oldest first. A write that
  fails leaves the file as it was. The blocking and the non-blocking form of a call do
  the same thing to the file system; one step of a program runs at a time.
\<close>

datatype io_event =
    StatDir
  | StatFile
  | Mkdirp
  | ReadFile
  | WriteFile bool string

record fs =
  dir_stat :: "error option"
  file_stat :: "error option"
  file_data :: string
  mkdirp_error :: "error option"
  read_error :: "error option"
  write_error :: "error option"
  undefined_data :: string
  trace :: "io_event list"

definition ENOENT :: error where
  "ENOENT = SystemError ''ENOENT''"

text \<open>\<^verbatim>\<open>err.code === 'ENOENT'\<close>\<close>

fun is_ENOENT :: "error \<Rightarrow> bool" where
  "is_ENOENT (SystemError c) = (c = ''ENOENT'')"
| "is_ENOENT e = False"

definition log :: "io_event \<Rightarrow> fs \<Rightarrow> fs" where
  "log ev s = s\<lparr>trace := trace s @ [ev]\<rparr>"

definition do_stat_dir :: "fs \<Rightarrow> error option \<times> fs" where
  "do_stat_dir s = (dir_stat s, log StatDir s)"

definition do_stat_file :: "fs \<Rightarrow> error option \<times> fs" where
  "do_stat_file s = (file_stat s, log StatFile s)"

definition do_mkdirp :: "fs \<Rightarrow> error option \<times> fs" where
  "do_mkdirp s =
     (case mkdirp_error s of
        Some e \<Rightarrow> (Some e, log Mkdirp s)
      | None \<Rightarrow> (None, log Mkdirp (s\<lparr>dir_stat := None\<rparr>)))"

definition do_read :: "fs \<Rightarrow> (error + string) \<times> fs" where
  "do_read s =
     (case read_error s of
        Some e \<Rightarrow> (Inl e, log ReadFile s)
      | None \<Rightarrow>
          (case file_stat s of
             Some e \<Rightarrow> (Inl e, log ReadFile s)
           | None \<Rightarrow> (Inr (file_data s), log ReadFile s)))"

text \<open>
  Writing the whole file, through a temporary file and a rename (\<open>atomic\<close>) or in
  place. Every write of the store follows a successful check of the directory.
\<close>

definition do_write :: "bool \<Rightarrow> string option \<Rightarrow> fs \<Rightarrow> error option \<times> fs" where
  "do_write atomic data s =
     (let bytes = (case data of None \<Rightarrow> undefined_data s | Some b \<Rightarrow> b) in
      case write_error s of
        Some e \<Rightarrow> (Some e, log (WriteFile atomic bytes) s)
      | None \<Rightarrow>
          (None, log (WriteFile atomic bytes) (s\<lparr>file_stat := None, file_data := bytes\<rparr>)))"

section \<open>The store, blocking (lib/settings.js, the \<^verbatim>\<open>...Sync\<close> methods)\<close>

text \<open>
  A blocking method returns its result, or throws; both come back with the file system
  it leaves. A method without a result returns the error it threw, if any.
\<close>

definition ensureSettingsDirSync :: "fs \<Rightarrow> error option \<times> fs" where
  "ensureSettingsDirSync s =
     (case do_stat_dir s of
        (None, s1) \<Rightarrow> (None, s1)
      | (Some err, s1) \<Rightarrow> if is_ENOENT err then do_mkdirp s1 else (Some err, s1))"

definition writeSettingsFileSync :: "config \<Rightarrow> string option \<Rightarrow> fs \<Rightarrow> error option \<times> fs" where
  "writeSettingsFileSync cfg data s =
     (case ensureSettingsDirSync s of
        (Some err, s1) \<Rightarrow> (Some err, s1)
      | (None, s1) \<Rightarrow>
          if atomicSave cfg then do_write True data s1 else do_write False data s1)"

definition saveSettingsSync :: "crypto \<Rightarrow> config \<Rightarrow> jsval \<Rightarrow> fs \<Rightarrow> error option \<times> fs" where
  "saveSettingsSync cr cfg obj s =
     (case prepareSettingsData cr cfg obj of
        Inl err \<Rightarrow> (Some err, s)
      | Inr data \<Rightarrow> writeSettingsFileSync cfg data s)"

definition ensureSettingsFileSync :: "crypto \<Rightarrow> config \<Rightarrow> fs \<Rightarrow> error option \<times> fs" where
  "ensureSettingsFileSync cr cfg s =
     (case do_stat_file s of
        (None, s1) \<Rightarrow> (None, s1)
      | (Some err, s1) \<Rightarrow>
          if is_ENOENT err then saveSettingsSync cr cfg (JObj []) s1 else (Some err, s1))"

definition readSettingsFileSync :: "crypto \<Rightarrow> config \<Rightarrow> fs \<Rightarrow> (error + jsval) \<times> fs" where
  "readSettingsFileSync cr cfg s =
     (case do_read s of
        (Inl err, s1) \<Rightarrow> (Inl err, s1)
      | (Inr data, s1) \<Rightarrow> (reconstructSettingsData cr cfg data, s1))"

definition loadSettingsSync :: "crypto \<Rightarrow> config \<Rightarrow> fs \<Rightarrow> (error + jsval) \<times> fs" where
  "loadSettingsSync cr cfg s =
     (case ensureSettingsFileSync cr cfg s of
        (Some err, s1) \<Rightarrow> (Inl err, s1)
      | (None, s1) \<Rightarrow> readSettingsFileSync cr cfg s1)"

definition getValueAtKeyPathSync ::
  "crypto \<Rightarrow> config \<Rightarrow> jsval \<Rightarrow> fs \<Rightarrow> (error + jsval) \<times> fs" where
  "getValueAtKeyPathSync cr cfg keyPath s =
     (case loadSettingsSync cr cfg s of
        (Inl err, s1) \<Rightarrow> (Inl err, s1)
      | (Inr obj, s1) \<Rightarrow>
          if truthy keyPath
          then (Inr (keyPathHelpers_getValueAtKeyPath obj (the_string keyPath)), s1)
          else (Inr obj, s1))"

definition hasKeyPathSync ::
  "crypto \<Rightarrow> config \<Rightarrow> jsval \<Rightarrow> fs \<Rightarrow> (error + jsval) \<times> fs" where
  "hasKeyPathSync cr cfg keyPath s =
     (case loadSettingsSync cr cfg s of
        (Inl err, s1) \<Rightarrow> (Inl err, s1)
      | (Inr obj, s1) \<Rightarrow> (Inr (JBool (keyPathHelpers_hasKeyPath obj (the_string keyPath))), s1))"

definition setValueAtKeyPathSync ::
  "crypto \<Rightarrow> config \<Rightarrow> jsval \<Rightarrow> jsval \<Rightarrow> fs \<Rightarrow> error option \<times> fs" where
  "setValueAtKeyPathSync cr cfg keyPath val s =
     (if truthy keyPath then
        (case loadSettingsSync cr cfg s of
           (Inl err, s1) \<Rightarrow> (Some err, s1)
         | (Inr obj, s1) \<Rightarrow>
             saveSettingsSync cr cfg
               (keyPathHelpers_setValueAtKeyPath obj (the_string keyPath) val) s1)
      else saveSettingsSync cr cfg val s)"

definition deleteValueAtKeyPathSync ::
  "crypto \<Rightarrow> config \<Rightarrow> jsval \<Rightarrow> fs \<Rightarrow> error option \<times> fs" where
  "deleteValueAtKeyPathSync cr cfg keyPath s =
     (case loadSettingsSync cr cfg s of
        (Inl err, s1) \<Rightarrow> (Some err, s1)
      | (Inr obj, s1) \<Rightarrow>
          saveSettingsSync cr cfg
            (keyPathHelpers_deleteValueAtKeyPath obj (the_string keyPath)) s1)"

section \<open>The store, non-blocking (lib/settings.js, the callback methods)\<close>

text \<open>
  What a non-blocking call ends in: the caller's callback is called with an error or
  with a result (\<open>Called\<close>), the call itself throws before it returns (\<open>Throws\<close>), or
  an exception leaves a callback that the runtime called after an I/O step and nobody
  catches it (\<open>Uncaught\<close>); the caller's callback is not called then. A continuation
  is the callback a method hands on: it takes the error (\<^verbatim>\<open>null\<close> is \<open>None\<close>), the
  result (\<^verbatim>\<open>undefined\<close> when the call passes none) and the file system at that moment.
\<close>

datatype outcome =
    Called "error option" jsval
  | Throws error
  | Uncaught error

type_synonym cont = "error option \<Rightarrow> jsval \<Rightarrow> fs \<Rightarrow> outcome \<times> fs"

text \<open>
  Calling the value the caller passed as callback: a function is called (its body is
  the caller's; it is taken to return normally), anything else is not callable.
\<close>

definition callback :: "jsval \<Rightarrow> cont" where
  "callback fn err val s =
     (if fn = JFun then (Called err val, s)
      else (Throws (TypeError ''fn is not a function''), s))"

text \<open>
  The runtime calls the callback of an I/O step from its event loop: an exception that
  leaves the callback has no caller to reach.
\<close>

fun io_callback :: "outcome \<times> fs \<Rightarrow> outcome \<times> fs" where
  "io_callback (Throws e, s) = (Uncaught e, s)"
| "io_callback r = r"

text \<open>\<^verbatim>\<open>try { ... } catch (err) { ... }\<close> around a part that may throw.\<close>

fun try_catch :: "outcome \<times> fs \<Rightarrow> (error \<Rightarrow> fs \<Rightarrow> outcome \<times> fs) \<Rightarrow> outcome \<times> fs" where
  "try_catch (Throws e, s) handler = handler e s"
| "try_catch r handler = r"

definition fs_stat_dir :: "(error option \<Rightarrow> fs \<Rightarrow> outcome \<times> fs) \<Rightarrow> fs \<Rightarrow> outcome \<times> fs" where
  "fs_stat_dir k s = io_callback (case do_stat_dir s of (err, s1) \<Rightarrow> k err s1)"

definition fs_stat_file :: "(error option \<Rightarrow> fs \<Rightarrow> outcome \<times> fs) \<Rightarrow> fs \<Rightarrow> outcome \<times> fs" where
  "fs_stat_file k s = io_callback (case do_stat_file s of (err, s1) \<Rightarrow> k err s1)"

definition mkdirp :: "cont \<Rightarrow> fs \<Rightarrow> outcome \<times> fs" where
  "mkdirp fn s = io_callback (case do_mkdirp s of (err, s1) \<Rightarrow> fn err JUndefined s1)"

definition fs_readFile ::
  "(error option \<Rightarrow> string \<Rightarrow> fs \<Rightarrow> outcome \<times> fs) \<Rightarrow> fs \<Rightarrow> outcome \<times> fs" where
  "fs_readFile k s =
     io_callback
       (case do_read s of
          (Inl err, s1) \<Rightarrow> k (Some err) [] s1
        | (Inr data, s1) \<Rightarrow> k None data s1)"

definition fs_writeFile :: "bool \<Rightarrow> string option \<Rightarrow> cont \<Rightarrow> fs \<Rightarrow> outcome \<times> fs" where
  "fs_writeFile atomic data fn s =
     io_callback (case do_write atomic data s of (err, s1) \<Rightarrow> fn err JUndefined s1)"

definition ensureSettingsDir :: "cont \<Rightarrow> fs \<Rightarrow> outcome \<times> fs" where
  "ensureSettingsDir fn s =
     fs_stat_dir
       (\<lambda>err s1.
          case err of
            Some e \<Rightarrow> if is_ENOENT e then mkdirp fn s1 else fn (Some e) JUndefined s1
          | None \<Rightarrow> fn None JUndefined s1)
       s"

definition writeSettingsFile :: "config \<Rightarrow> string option \<Rightarrow> cont \<Rightarrow> fs \<Rightarrow> outcome \<times> fs" where
  "writeSettingsFile cfg data fn s =
     ensureSettingsDir
       (\<lambda>err made s1.
          case err of
            Some e \<Rightarrow> fn (Some e) JUndefined s1
          | None \<Rightarrow>
              if atomicSave cfg then fs_writeFile True data fn s1
              else fs_writeFile False data fn s1)
       s"

definition saveSettings :: "crypto \<Rightarrow> config \<Rightarrow> jsval \<Rightarrow> cont \<Rightarrow> fs \<Rightarrow> outcome \<times> fs" where
  "saveSettings cr cfg obj fn s =
     (case prepareSettingsData cr cfg obj of
        Inl err \<Rightarrow> fn (Some err) JUndefined s
      | Inr data \<Rightarrow> writeSettingsFile cfg data fn s)"

definition ensureSettingsFile :: "crypto \<Rightarrow> config \<Rightarrow> cont \<Rightarrow> fs \<Rightarrow> outcome \<times> fs" where
  "ensureSettingsFile cr cfg fn s =
     fs_stat_file
       (\<lambda>err s1.
          case err of
            Some e \<Rightarrow>
              if is_ENOENT e then saveSettings cr cfg (JObj []) fn s1
              else fn (Some e) JUndefined s1
          | None \<Rightarrow> fn None JUndefined s1)
       s"

text \<open>
  \<^verbatim>\<open>_readSettingsFile\<close>: the call of \<^verbatim>\<open>fn\<close> with the document stands inside the
  \<^verbatim>\<open>try\<close>, so the \<^verbatim>\<open>catch\<close> also takes what \<^verbatim>\<open>fn\<close> throws before its first I/O
  step, and calls \<^verbatim>\<open>fn\<close> again, with that error.
\<close>

definition readSettingsFile :: "crypto \<Rightarrow> config \<Rightarrow> cont \<Rightarrow> fs \<Rightarrow> outcome \<times> fs" where
  "readSettingsFile cr cfg fn s =
     fs_readFile
       (\<lambda>err data s1.
          case err of
            Some e \<Rightarrow> fn (Some e) JUndefined s1
          | None \<Rightarrow>
              try_catch
                (case reconstructSettingsData cr cfg data of
                   Inl e \<Rightarrow> (Throws e, s1)
                 | Inr obj \<Rightarrow> fn None obj s1)
                (\<lambda>e s2. fn (Some e) JUndefined s2))
       s"

definition loadSettings :: "crypto \<Rightarrow> config \<Rightarrow> cont \<Rightarrow> fs \<Rightarrow> outcome \<times> fs" where
  "loadSettings cr cfg fn s =
     ensureSettingsFile cr cfg
       (\<lambda>err x s1.
          case err of
            Some e \<Rightarrow> fn (Some e) JUndefined s1
          | None \<Rightarrow> readSettingsFile cr cfg fn s1)
       s"

definition getValueAtKeyPath :: "crypto \<Rightarrow> config \<Rightarrow> jsval \<Rightarrow> jsval \<Rightarrow> fs \<Rightarrow> outcome \<times> fs" where
  "getValueAtKeyPath cr cfg keyPath fn s =
     loadSettings cr cfg
       (\<lambda>err obj s1.
          case err of
            Some e \<Rightarrow> callback fn (Some e) JUndefined s1
          | None \<Rightarrow>
              if truthy keyPath
              then callback fn None (keyPathHelpers_getValueAtKeyPath obj (the_string keyPath)) s1
              else callback fn None obj s1)
       s"

definition hasKeyPath :: "crypto \<Rightarrow> config \<Rightarrow> jsval \<Rightarrow> jsval \<Rightarrow> fs \<Rightarrow> outcome \<times> fs" where
  "hasKeyPath cr cfg keyPath fn s =
     loadSettings cr cfg
       (\<lambda>err obj s1.
          case err of
            Some e \<Rightarrow> callback fn (Some e) JUndefined s1
          | None \<Rightarrow>
              callback fn None (JBool (keyPathHelpers_hasKeyPath obj (the_string keyPath))) s1)
       s"

definition setValueAtKeyPath ::
  "crypto \<Rightarrow> config \<Rightarrow> jsval \<Rightarrow> jsval \<Rightarrow> jsval \<Rightarrow> fs \<Rightarrow> outcome \<times> fs" where
  "setValueAtKeyPath cr cfg keyPath val fn s =
     (if truthy keyPath then
        loadSettings cr cfg
          (\<lambda>err obj s1.
             case err of
               Some e \<Rightarrow> callback fn (Some e) JUndefined s1
             | None \<Rightarrow>
                 saveSettings cr cfg
                   (keyPathHelpers_setValueAtKeyPath obj (the_string keyPath) val)
                   (callback fn) s1)
          s
      else saveSettings cr cfg val (callback fn) s)"

definition deleteValueAtKeyPath ::
  "crypto \<Rightarrow> config \<Rightarrow> jsval \<Rightarrow> jsval \<Rightarrow> fs \<Rightarrow> outcome \<times> fs" where
  "deleteValueAtKeyPath cr cfg keyPath fn s =
     loadSettings cr cfg
       (\<lambda>err obj s1.
          case err of
            Some e \<Rightarrow> callback fn (Some e) JUndefined s1
          | None \<Rightarrow>
              saveSettings cr cfg
                (keyPathHelpers_deleteValueAtKeyPath obj (the_string keyPath))
                (callback fn) s1)
       s"

section \<open>The public methods (lib/settings.js, lines 862--1307)\<close>

text \<open>
  Every public method takes a rest parameter \<^verbatim>\<open>...args\<close>. When \<^verbatim>\<open>args[0]\<close> is a key
  path it is replaced by its flattened form (\<^verbatim>\<open>args.splice(0, 1, ...)\<close>); otherwise
  \<^verbatim>\<open>get\<close> and \<^verbatim>\<open>set\<close> put \<^verbatim>\<open>null\<close> in front of the arguments
  (\<^verbatim>\<open>args.splice(0, 0, null)\<close>), and \<^verbatim>\<open>has\<close> and \<^verbatim>\<open>delete\<close> throw. The private
  method is then called with the spread arguments.
\<close>

definition splice_keyPath :: "jsval list \<Rightarrow> jsval list" where
  "splice_keyPath args =
     (if truthy (isKeyPath (arg args 0)) then flattenKeyPath (arg args 0) # drop 1 args
      else JNull # args)"

definition invalid_key_path :: error where
  "invalid_key_path = TypeError ''A valid key path must be provided''"

text \<open>A blocking method without a result returns \<^verbatim>\<open>undefined\<close>.\<close>

fun returns_undefined :: "error option \<times> fs \<Rightarrow> (error + jsval) \<times> fs" where
  "returns_undefined (None, s) = (Inr JUndefined, s)"
| "returns_undefined (Some e, s) = (Inl e, s)"

definition settings_get :: "crypto \<Rightarrow> config \<Rightarrow> jsval list \<Rightarrow> fs \<Rightarrow> outcome \<times> fs" where
  "settings_get cr cfg args s =
     (let args' = splice_keyPath args
      in getValueAtKeyPath cr cfg (arg args' 0) (arg args' 1) s)"

definition settings_getSync :: "crypto \<Rightarrow> config \<Rightarrow> jsval list \<Rightarrow> fs \<Rightarrow> (error + jsval) \<times> fs" where
  "settings_getSync cr cfg args s =
     (let args' = splice_keyPath args
      in getValueAtKeyPathSync cr cfg (arg args' 0) s)"

definition settings_has :: "crypto \<Rightarrow> config \<Rightarrow> jsval list \<Rightarrow> fs \<Rightarrow> outcome \<times> fs" where
  "settings_has cr cfg args s =
     (if truthy (isKeyPath (arg args 0)) then
        (let args' = flattenKeyPath (arg args 0) # drop 1 args
         in hasKeyPath cr cfg (arg args' 0) (arg args' 1) s)
      else (Throws invalid_key_path, s))"

definition settings_hasSync :: "crypto \<Rightarrow> config \<Rightarrow> jsval list \<Rightarrow> fs \<Rightarrow> (error + jsval) \<times> fs" where
  "settings_hasSync cr cfg args s =
     (if truthy (isKeyPath (arg args 0)) then
        (let args' = flattenKeyPath (arg args 0) # drop 1 args
         in hasKeyPathSync cr cfg (arg args' 0) s)
      else (Inl invalid_key_path, s))"

definition settings_set :: "crypto \<Rightarrow> config \<Rightarrow> jsval list \<Rightarrow> fs \<Rightarrow> outcome \<times> fs" where
  "settings_set cr cfg args s =
     (let args' = splice_keyPath args
      in setValueAtKeyPath cr cfg (arg args' 0) (arg args' 1) (arg args' 2) s)"

definition settings_setSync :: "crypto \<Rightarrow> config \<Rightarrow> jsval list \<Rightarrow> fs \<Rightarrow> (error + jsval) \<times> fs" where
  "settings_setSync cr cfg args s =
     (let args' = splice_keyPath args
      in returns_undefined (setValueAtKeyPathSync cr cfg (arg args' 0) (arg args' 1) s))"

definition settings_delete :: "crypto \<Rightarrow> config \<Rightarrow> jsval list \<Rightarrow> fs \<Rightarrow> outcome \<times> fs" where
  "settings_delete cr cfg args s =
     (if truthy (isKeyPath (arg args 0)) then
        (let args' = flattenKeyPath (arg args 0) # drop 1 args
         in deleteValueAtKeyPath cr cfg (arg args' 0) (arg args' 1) s)
      else (Throws invalid_key_path, s))"

definition settings_deleteSync ::
  "crypto \<Rightarrow> config \<Rightarrow> jsval list \<Rightarrow> fs \<Rightarrow> (error + jsval) \<times> fs" where
  "settings_deleteSync cr cfg args s =
     (if truthy (isKeyPath (arg args 0)) then
        (let args' = flattenKeyPath (arg args 0) # drop 1 args
         in returns_undefined (deleteValueAtKeyPathSync cr cfg (arg args' 0) s))
      else (Inl invalid_key_path, s))"

section \<open>Concrete stores\<close>

text \<open>
  A stand-in for a symmetric cipher, for running the scenarios: it reverses the bytes,
  whatever the algorithm and the key, except that deciphering under the key
  \<^verbatim>\<open>wrong\<close> fails, as a bad decrypt does.
\<close>

definition test_crypto :: crypto where
  "test_crypto =
     \<lparr>encipher = (\<lambda>algorithm key data. Inr (rev data)),
      decipher = (\<lambda>algorithm key data.
         if key = ''wrong'' then Inl (CipherError ''bad decrypt'') else Inr (rev data))\<rparr>"

text \<open>A fresh store: neither the directory nor the file is there, nothing fails.\<close>

definition fresh_store :: fs where
  "fresh_store =
     \<lparr>dir_stat = Some ENOENT, file_stat = Some ENOENT, file_data = [],
      mkdirp_error = None, read_error = None, write_error = None,
      undefined_data = ''undefined'', trace = []\<rparr>"

text \<open>A store whose file is there and holds the given bytes.\<close>

definition store_with :: "string \<Rightarrow> fs" where
  "store_with bytes = fresh_store\<lparr>dir_stat := None, file_stat := None, file_data := bytes\<rparr>"

section \<open>Notions of the statements\<close>

text \<open>
  The cipher of a configuration works: it enciphers every text, and deciphering that
  gives the text back.
\<close>

definition working_cipher :: "crypto \<Rightarrow> config \<Rightarrow> bool" where
  "working_cipher cr cfg =
     (\<forall>text. \<exists>enc. encryptData cr cfg text = Inr enc \<and> decryptData cr cfg enc = Inr text)"

text \<open>
  JSON text indented by \<open>n\<close> spaces a level, in the words of the specification
  (\<open>n = 0\<close>: no extra white space).
\<close>

definition spec_indented :: "nat \<Rightarrow> jsval \<Rightarrow> string option" where
  "spec_indented n v = SerializeJSONProperty (replicate n CHR '' '') [] v"

text \<open>
  A non-blocking call and a blocking call have the same result: the callback got the
  value the blocking call returns, or the error it throws (or the non-blocking call
  threw that error itself), and the file system is the same.
\<close>

fun same_result :: "outcome \<times> fs \<Rightarrow> (error + jsval) \<times> fs \<Rightarrow> bool" where
  "same_result (Called None v, s) (Inr v', s') = (v = v' \<and> s = s')"
| "same_result (Called (Some e) v, s) (Inl e', s') = (e = e' \<and> s = s')"
| "same_result (Throws e, s) (Inl e', s') = (e = e' \<and> s = s')"
| "same_result r r' = False"

text \<open>Handing the outcome of a blocking method to a continuation.\<close>

fun lift0 :: "cont \<Rightarrow> error option \<times> fs \<Rightarrow> outcome \<times> fs" where
  "lift0 fn (err, s) = fn err JUndefined s"

fun lift1 :: "cont \<Rightarrow> (error + jsval) \<times> fs \<Rightarrow> outcome \<times> fs" where
  "lift1 fn (Inl e, s) = fn (Some e) JUndefined s"
| "lift1 fn (Inr v, s) = fn None v s"

text \<open>A continuation that never throws.\<close>

definition safe :: "cont \<Rightarrow> bool" where
  "safe fn = (\<forall>err v s e. fst (fn err v s) \<noteq> Throws e)"

text \<open>The bytes of the first write among some calls.\<close>

fun first_write :: "io_event list \<Rightarrow> string option" where
  "first_write [] = None"
| "first_write (WriteFile atomic bytes # evs) = Some bytes"
| "first_write (ev # evs) = first_write evs"

text \<open>
  \<open>s'\<close> comes after \<open>s\<close>: the same failures are planned, and the history has only
  grown.
\<close>

definition later :: "fs \<Rightarrow> fs \<Rightarrow> io_event list \<Rightarrow> bool" where
  "later s s' evs =
     (mkdirp_error s' = mkdirp_error s \<and> read_error s' = read_error s
      \<and> write_error s' = write_error s \<and> undefined_data s' = undefined_data s
      \<and> trace s' = trace s @ evs)"

text \<open>Measures and side conditions of the proofs about the JSON reader.\<close>

fun fuel :: "jsval \<Rightarrow> nat" where
  "fuel (JArr xs) = Suc (sum_list (map (\<lambda>x. Suc (fuel x)) xs))"
| "fuel (JObj kvs) = Suc (sum_list (map (\<lambda>kv. Suc (fuel (snd kv))) kvs))"
| "fuel v = 1"

definition no_digit_head :: "string \<Rightarrow> bool" where
  "no_digit_head s = (case s of [] \<Rightarrow> True | c # cs \<Rightarrow> \<not> is_digit c)"

definition value_start :: "char \<Rightarrow> bool" where
  "value_start c =
     (\<not> is_ws c \<and> c \<noteq> CHR '']'' \<and> c \<noteq> CHR ''}'' \<and> c \<noteq> CHR '','' \<and> c \<noteq> CHR '':'')"


text \<open>The bytes a write call stores for the data it is handed.\<close>

definition bytes_of :: "fs \<Rightarrow> string option \<Rightarrow> string" where
  "bytes_of s data = (case data of None \<Rightarrow> undefined_data s | Some b \<Rightarrow> b)"

text \<open>
  Between \<open>s\<close> and \<open>s'\<close> the first bytes written to the file are the encoding of the
  empty object.
\<close>

definition creates_empty_first :: "crypto \<Rightarrow> config \<Rightarrow> fs \<Rightarrow> fs \<Rightarrow> bool" where
  "creates_empty_first cr cfg s s' =
     (\<exists>bytes evs. prepareSettingsData cr cfg (JObj []) = Inr (Some bytes)
        \<and> trace s' = trace s @ evs \<and> first_write evs = Some bytes)"

text \<open>
  The four operations and their two variants, for statements about all of them.
  \<open>loads\<close>: the call gets as far as loading the document (\<^verbatim>\<open>get\<close> always does;
  \<^verbatim>\<open>has\<close> and \<^verbatim>\<open>delete\<close> when their key path is valid; \<^verbatim>\<open>set\<close> when its key path
  is valid and not the empty string).
\<close>

datatype operation = OpGet | OpHas | OpSet | OpDelete

fun run_sync ::
  "operation \<Rightarrow> crypto \<Rightarrow> config \<Rightarrow> jsval list \<Rightarrow> fs \<Rightarrow> (error + jsval) \<times> fs" where
  "run_sync OpGet = settings_getSync"
| "run_sync OpHas = settings_hasSync"
| "run_sync OpSet = settings_setSync"
| "run_sync OpDelete = settings_deleteSync"

fun run_async ::
  "operation \<Rightarrow> crypto \<Rightarrow> config \<Rightarrow> jsval list \<Rightarrow> fs \<Rightarrow> outcome \<times> fs" where
  "run_async OpGet = settings_get"
| "run_async OpHas = settings_has"
| "run_async OpSet = settings_set"
| "run_async OpDelete = settings_delete"

fun loads :: "operation \<Rightarrow> jsval list \<Rightarrow> bool" where
  "loads OpGet args = True"
| "loads OpHas args = spec_valid_key_path (arg args 0)"
| "loads OpSet args = (spec_valid_key_path (arg args 0) \<and> spec_normalize (arg args 0) \<noteq> [])"
| "loads OpDelete args = spec_valid_key_path (arg args 0)"

text \<open>An outcome in which the caller's callback was not called; a continuation that
  never calls it.\<close>

definition uncalled :: "outcome \<times> fs \<Rightarrow> bool" where
  "uncalled r = (\<forall>err v. fst r \<noteq> Called err v)"

definition never_calls :: "cont \<Rightarrow> bool" where
  "never_calls fn = (\<forall>err v s. uncalled (fn err v s))"

section \<open>The JSON reader reads what the writer wrote\<close>

lemma lt16_cases:
  "d < (16::nat) \<Longrightarrow> d = 0 \<or> d = 1 \<or> d = 2 \<or> d = 3 \<or> d = 4 \<or> d = 5 \<or> d = 6 \<or> d = 7
     \<or> d = 8 \<or> d = 9 \<or> d = 10 \<or> d = 11 \<or> d = 12 \<or> d = 13 \<or> d = 14 \<or> d = 15"
  by arith

lemma hex_val_digit_char: "d < 16 \<Longrightarrow> hex_val (digit_char d) = Some d"
  using lt16_cases [of d] by (auto simp: hex_val_def digit_char_def)

lemma of_char_digit_char: "d < 10 \<Longrightarrow> (of_char (digit_char d) :: nat) = 48 + d"
  using lt16_cases [of d] by (auto simp: digit_char_def)

lemma is_digit_digit_char: "d < 10 \<Longrightarrow> is_digit (digit_char d)"
  by (simp add: is_digit_def of_char_digit_char)

lemma digit_val_digit_char: "d < 10 \<Longrightarrow> digit_val (digit_char d) = d"
  by (simp add: digit_val_def of_char_digit_char)

lemma digit_char_eq_zero: "d < 10 \<Longrightarrow> (digit_char d = CHR ''0'') = (d = 0)"
  using lt16_cases [of d] by (auto simp: digit_char_def)

lemma show_nat_digits: "list_all is_digit (show_nat n)"
proof (induction n rule: show_nat.induct)
  case (1 n)
  show ?case
  proof (cases "n < 10")
    case True
    then show ?thesis by (simp add: show_nat.simps [of n] is_digit_digit_char)
  next
    case False
    then show ?thesis using 1 by (simp add: show_nat.simps [of n] is_digit_digit_char)
  qed
qed

lemma show_nat_nonempty: "show_nat n \<noteq> []"
  by (simp add: show_nat.simps [of n])

lemma read_nat_snoc: "read_nat (ds @ [c]) = 10 * read_nat ds + digit_val c"
  by (simp add: read_nat_def)

lemma read_nat_show_nat: "read_nat (show_nat n) = n"
proof (induction n rule: show_nat.induct)
  case (1 n)
  show ?case
  proof (cases "n < 10")
    case True
    then show ?thesis by (simp add: show_nat.simps [of n] read_nat_def digit_val_digit_char)
  next
    case False
    then have "read_nat (show_nat (n div 10)) = n div 10" using 1 by simp
    then show ?thesis using False
      by (simp add: show_nat.simps [of n] read_nat_snoc digit_val_digit_char)
  qed
qed

lemma hd_show_nat_zero: "(hd (show_nat n) = CHR ''0'') = (n = 0)"
proof (induction n rule: show_nat.induct)
  case (1 n)
  show ?case
  proof (cases "n < 10")
    case True
    then show ?thesis by (simp add: show_nat.simps [of n] digit_char_eq_zero)
  next
    case False
    then have "(hd (show_nat (n div 10)) = CHR ''0'') = (n div 10 = 0)" using 1 by simp
    moreover have "n div 10 \<noteq> 0" using False by simp
    ultimately show ?thesis using False show_nat_nonempty [of "n div 10"]
      by (simp add: show_nat.simps [of n])
  qed
qed

lemma takeWhile_digits: "list_all is_digit ds \<Longrightarrow> no_digit_head r \<Longrightarrow> takeWhile is_digit (ds @ r) = ds"
  by (induction ds) (auto simp: no_digit_head_def split: list.splits)

lemma dropWhile_digits: "list_all is_digit ds \<Longrightarrow> no_digit_head r \<Longrightarrow> dropWhile is_digit (ds @ r) = r"
  by (induction ds) (auto simp: no_digit_head_def split: list.splits)

lemma parse_nat_show_nat:
  assumes "no_digit_head r"
  shows "parse_nat (show_nat n @ r) = Some (n, r)"
proof -
  obtain c cs where cs: "show_nat n = c # cs"
    using show_nat_nonempty [of n] by (cases "show_nat n") auto
  have dig: "list_all is_digit (c # cs)" using show_nat_digits [of n] cs by simp
  show ?thesis
  proof (cases "n = 0")
    case True
    then show ?thesis by (simp add: show_nat.simps [of 0] parse_nat_def digit_char_def)
  next
    case False
    then have "c \<noteq> CHR ''0''" using hd_show_nat_zero [of n] cs by simp
    moreover have "takeWhile is_digit ((c # cs) @ r) = c # cs"
      using takeWhile_digits [OF dig assms] .
    moreover have "dropWhile is_digit ((c # cs) @ r) = r"
      using dropWhile_digits [OF dig assms] .
    moreover have "read_nat (c # cs) = n" using read_nat_show_nat [of n] cs by simp
    moreover have "is_digit c" using dig by simp
    ultimately show ?thesis using cs by (simp add: parse_nat_def)
  qed
qed

lemma hd_show_nat_not_minus: "hd (show_nat n) \<noteq> CHR ''-''"
proof -
  have "list_all is_digit (show_nat n)" by (rule show_nat_digits)
  then have "is_digit (hd (show_nat n))"
    using show_nat_nonempty [of n] by (cases "show_nat n") auto
  then show ?thesis by (auto simp: is_digit_def)
qed

lemma parse_number_show_int:
  assumes "no_digit_head r"
  shows "parse_number (show_int i @ r) = Some (JNum i, r)"
proof (cases "i < 0")
  case True
  then show ?thesis
    using parse_nat_show_nat [OF assms, of "nat (- i)"]
    by (simp add: parse_number_def show_int_def)
next
  case False
  obtain c cs where cs: "show_nat (nat i) = c # cs"
    using show_nat_nonempty [of "nat i"] by (cases "show_nat (nat i)") auto
  then have "c \<noteq> CHR ''-''" using hd_show_nat_not_minus [of "nat i"] by simp
  then show ?thesis
    using False cs parse_nat_show_nat [OF assms, of "nat i"]
    by (simp add: parse_number_def show_int_def)
qed

lemma parse_quote_char:
  "parse_string_chars (quote_char c @ s) = map_option (\<lambda>(t, r). (c # t, r)) (parse_string_chars s)"
proof -
  let ?n = "of_char c :: nat"
  consider (esc) "c \<in> {CHR 0x08, CHR 0x09, NL, CHR 0x0C, CHR 0x0D, DQ, BSL}"
    | (ctl) "c \<notin> {CHR 0x08, CHR 0x09, NL, CHR 0x0C, CHR 0x0D, DQ, BSL}" "?n < 32"
    | (plain) "c \<notin> {CHR 0x08, CHR 0x09, NL, CHR 0x0C, CHR 0x0D, DQ, BSL}" "\<not> ?n < 32"
    by blast
  then show ?thesis
  proof cases
    case esc
    then show ?thesis by (auto simp: quote_char_def unescape_def)
  next
    case ctl
    have h1: "hex_val (digit_char (?n div 16)) = Some (?n div 16)"
      using ctl(2) by (intro hex_val_digit_char) simp
    have h2: "hex_val (digit_char (?n mod 16)) = Some (?n mod 16)"
      by (intro hex_val_digit_char) simp
    have h0: "hex_val CHR ''0'' = Some 0" by (simp add: hex_val_def)
    have "hex4 CHR ''0'' CHR ''0'' (digit_char (?n div 16)) (digit_char (?n mod 16)) = Some c"
      using ctl(2) by (simp add: hex4_def h0 h1 h2)
    then show ?thesis using ctl by (simp add: quote_char_def)
  next
    case plain
    then show ?thesis by (simp add: quote_char_def)
  qed
qed

lemma parse_string_body:
  "parse_string_chars (concat (map quote_char s) @ DQ # r) = Some (s, r)"
  by (induction s) (simp_all add: parse_quote_char)

lemma skip_ws_append: "list_all is_ws w \<Longrightarrow> skip_ws (w @ s) = skip_ws s"
  by (induction w) auto

lemma skip_ws_nonws: "\<not> is_ws c \<Longrightarrow> skip_ws (c # s) = c # s"
  by simp

lemma parse_value_skip: "list_all is_ws w \<Longrightarrow> parse_value n (w @ s) = parse_value n s"
  by (cases n) (simp_all add: skip_ws_append)

lemma parse_members_skip: "list_all is_ws w \<Longrightarrow> parse_members n (w @ s) = parse_members n s"
  by (cases n) (simp_all add: skip_ws_append)

lemma parse_elements_skip: "list_all is_ws w \<Longrightarrow> parse_elements n (w @ s) = parse_elements n s"
  by (cases n) (simp_all add: parse_value_skip)

lemma no_digit_head_ws: "list_all is_ws w \<Longrightarrow> \<not> is_digit c \<Longrightarrow> no_digit_head (w @ c # r)"
  by (cases w) (auto simp: no_digit_head_def is_ws_def is_digit_def)

lemma ser_some: "json_value v \<Longrightarrow> \<exists>t. SerializeJSONProperty gap ind v = Some t"
  by (cases v) simp_all

lemma ser_array: "list_all json_value xs \<Longrightarrow>
    SerializeJSONArray gap ind xs = map (\<lambda>x. the (SerializeJSONProperty gap ind x)) xs"
proof (induction xs)
  case Nil
  show ?case by simp
next
  case (Cons x xs)
  then obtain t where "SerializeJSONProperty gap ind x = Some t"
    using ser_some [of x gap ind] by auto
  then show ?case using Cons by simp
qed

lemma ser_object: "list_all (\<lambda>kv. json_value (snd kv)) kvs \<Longrightarrow>
    SerializeJSONObject gap ind kvs =
      map (\<lambda>kv. QuoteJSONString (fst kv) @ '':'' @ (if gap = [] then [] else '' '')
                  @ the (SerializeJSONProperty gap ind (snd kv))) kvs"
proof (induction kvs)
  case Nil
  show ?case by simp
next
  case (Cons kv kvs)
  then obtain t where "SerializeJSONProperty gap ind (snd kv) = Some t"
    using ser_some [of "snd kv" gap ind] by auto
  then show ?case using Cons by simp
qed

lemma show_int_head: "\<exists>c cs. show_int i = c # cs \<and> (c = CHR ''-'' \<or> is_digit c)"
proof -
  have d: "\<And>n. \<exists>c cs. show_nat n = c # cs \<and> is_digit c"
  proof -
    fix n
    show "\<exists>c cs. show_nat n = c # cs \<and> is_digit c"
      using show_nat_nonempty [of n] show_nat_digits [of n] by (cases "show_nat n") auto
  qed
  show ?thesis using d [of "nat i"] by (auto simp: show_int_def)
qed

lemma wrap_head: "\<exists>cs. wrap opn cls gap ind items = opn # cs"
  by (simp add: wrap_def)

lemma ser_head:
  assumes "SerializeJSONProperty gap ind v = Some t"
  shows "\<exists>c cs. t = c # cs \<and> value_start c"
proof (cases v)
  case (JNum i)
  then show ?thesis using assms show_int_head [of i]
    by (auto simp: value_start_def is_ws_def is_digit_def)
next
  case (JArr xs)
  then show ?thesis using assms wrap_head [of "CHR ''[''"]
    by (auto simp: value_start_def is_ws_def wrap_def)
next
  case (JObj kvs)
  then show ?thesis using assms
    by (auto simp: value_start_def is_ws_def wrap_def)
qed (use assms in \<open>auto simp: value_start_def is_ws_def QuoteJSONString_def\<close>)

lemma wrap_nonempty:
  assumes "items \<noteq> []" "list_all is_ws gap" "list_all is_ws ind"
  shows "\<exists>w0 w2. list_all is_ws w0 \<and> list_all is_ws w2 \<and>
           wrap opn cls gap ind items = opn # w0 @ join (CHR '','' # w0) items @ w2 @ [cls]"
proof (cases "gap = []")
  case True
  have "wrap opn cls gap ind items = opn # [] @ join (CHR '','' # []) items @ [] @ [cls]"
    using assms True by (simp add: wrap_def)
  then show ?thesis by (intro exI [of _ "[]"]) simp
next
  case False
  have "wrap opn cls gap ind items =
          opn # (NL # ind @ gap) @ join (CHR '','' # (NL # ind @ gap)) items @ (NL # ind) @ [cls]"
    using assms False by (simp add: wrap_def)
  moreover have "list_all is_ws (NL # ind @ gap)" "list_all is_ws (NL # ind)"
    using assms by (simp_all add: is_ws_def)
  ultimately show ?thesis by blast
qed

lemma parse_elements_join:
  assumes IH: "\<And>x n r. x \<in> set xs \<Longrightarrow> fuel x \<le> n \<Longrightarrow> no_digit_head r \<Longrightarrow>
                 parse_value n (txt x @ r) = Some (x, r)"
    and ws: "list_all is_ws w0" "list_all is_ws w2"
    and ne: "xs \<noteq> []"
    and n: "sum_list (map (\<lambda>x. Suc (fuel x)) xs) \<le> n"
  shows "parse_elements n (w0 @ join (CHR '','' # w0) (map txt xs) @ w2 @ CHR '']'' # rest)
           = Some (xs, rest)"
  using IH ne n
proof (induction xs arbitrary: n)
  case Nil
  then show ?case by simp
next
  case (Cons x xs)
  obtain m where m: "n = Suc m" using Cons.prems(3) by (cases n) auto
  have fx: "fuel x \<le> m" using Cons.prems(3) m by simp
  show ?case
  proof (cases xs)
    case Nil
    have nd: "no_digit_head (w2 @ CHR '']'' # rest)"
      using ws by (intro no_digit_head_ws) (simp_all add: is_digit_def)
    have "parse_value m (txt x @ w2 @ CHR '']'' # rest) = Some (x, w2 @ CHR '']'' # rest)"
      using Cons.prems(1) [of x m, OF _ fx nd] by simp
    then show ?thesis using Nil m ws
      by (simp add: parse_value_skip skip_ws_append is_ws_def)
  next
    case (Cons y ys)
    let ?tail = "join (CHR '','' # w0) (map txt (y # ys)) @ w2 @ CHR '']'' # rest"
    have nd: "no_digit_head (CHR '','' # w0 @ ?tail)"
      by (simp add: no_digit_head_def is_digit_def)
    have pv: "parse_value m (txt x @ CHR '','' # w0 @ ?tail) = Some (x, CHR '','' # w0 @ ?tail)"
      using Cons.prems(1) [of x m, OF _ fx nd] by simp
    have rec: "parse_elements m (w0 @ ?tail) = Some (xs, rest)"
      using Cons.IH [of m] Cons.prems m Cons by simp
    show ?thesis using Cons m ws pv rec
      by (simp add: parse_value_skip is_ws_def)
  qed
qed

lemma parse_members_join:
  assumes IH: "\<And>kv n r. kv \<in> set kvs \<Longrightarrow> fuel (snd kv) \<le> n \<Longrightarrow> no_digit_head r \<Longrightarrow>
                 parse_value n (txt kv @ r) = Some (snd kv, r)"
    and ws: "list_all is_ws w0" "list_all is_ws w2" "list_all is_ws sp"
    and ne: "kvs \<noteq> []"
    and n: "sum_list (map (\<lambda>kv. Suc (fuel (snd kv))) kvs) \<le> n"
  shows "parse_members n
           (w0 @ join (CHR '','' # w0) (map (\<lambda>kv. QuoteJSONString (fst kv) @ '':'' @ sp @ txt kv) kvs)
              @ w2 @ CHR ''}'' # rest)
           = Some (kvs, rest)"
  using IH ne n
proof (induction kvs arbitrary: n)
  case Nil
  then show ?case by simp
next
  case (Cons kv kvs)
  obtain m where m: "n = Suc m" using Cons.prems(3) by (cases n) auto
  have fx: "fuel (snd kv) \<le> m" using Cons.prems(3) m by simp
  obtain k v where kv: "kv = (k, v)" by (cases kv)
  show ?case
  proof (cases kvs)
    case Nil
    have nd: "no_digit_head (w2 @ CHR ''}'' # rest)"
      using ws by (intro no_digit_head_ws) (simp_all add: is_digit_def)
    have "parse_value m (txt kv @ w2 @ CHR ''}'' # rest) = Some (snd kv, w2 @ CHR ''}'' # rest)"
      using Cons.prems(1) [of kv m, OF _ fx nd] by simp
    then show ?thesis using Nil m ws kv
      by (simp add: parse_value_skip skip_ws_append is_ws_def QuoteJSONString_def parse_string_body)
  next
    case (Cons y ys)
    let ?tail = "join (CHR '','' # w0) (map (\<lambda>kv. QuoteJSONString (fst kv) @ '':'' @ sp @ txt kv) (y # ys))
                   @ w2 @ CHR ''}'' # rest"
    have nd: "no_digit_head (CHR '','' # w0 @ ?tail)"
      by (simp add: no_digit_head_def is_digit_def)
    have pv: "parse_value m (txt kv @ CHR '','' # w0 @ ?tail) = Some (snd kv, CHR '','' # w0 @ ?tail)"
      using Cons.prems(1) [of kv m, OF _ fx nd] by simp
    have rec: "parse_members m (w0 @ ?tail) = Some (kvs, rest)"
      using Cons.IH [of m] Cons.prems m Cons by simp
    show ?thesis using Cons m ws pv rec kv
      by (simp add: parse_value_skip parse_members_skip skip_ws_append is_ws_def
            QuoteJSONString_def parse_string_body)
  qed
qed

lemma update_fresh: "k \<notin> fst ` set al \<Longrightarrow> AList.update k v al = al @ [(k, v)]"
  by (induction al) auto

lemma foldl_CreateDataProperty:
  "distinct (map fst (acc @ kvs)) \<Longrightarrow> foldl CreateDataProperty acc kvs = acc @ kvs"
proof (induction kvs arbitrary: acc)
  case Nil
  show ?case by simp
next
  case (Cons kv kvs)
  have "fst kv \<notin> fst ` set acc" using Cons.prems by auto
  then have "CreateDataProperty acc kv = acc @ [kv]"
    by (simp add: CreateDataProperty_def update_fresh)
  moreover have "distinct (map fst ((acc @ [kv]) @ kvs))" using Cons.prems by simp
  ultimately show ?case using Cons.IH [of "acc @ [kv]"] by simp
qed

lemma join_head: "xs \<noteq> [] \<Longrightarrow> \<exists>t. join sep xs = hd xs @ t"
proof (cases xs)
  case Nil
  assume "xs \<noteq> []"
  then show ?thesis using Nil by simp
next
  case (Cons a list)
  then show ?thesis by (cases list) auto
qed

lemma parse_serialize:
  "json_value v \<Longrightarrow> list_all is_ws gap \<Longrightarrow> list_all is_ws ind \<Longrightarrow> fuel v \<le> n \<Longrightarrow>
   no_digit_head r \<Longrightarrow>
   parse_value n (the (SerializeJSONProperty gap ind v) @ r) = Some (v, r)"
proof (induction v arbitrary: gap ind n r)
  case JUndefined
  then show ?case by simp
next
  case JFun
  then show ?case by simp
next
  case JNull
  then obtain m where "n = Suc m" by (cases n) auto
  then show ?case by (simp add: is_ws_def parse_literal_def)
next
  case (JBool b)
  then obtain m where "n = Suc m" by (cases n) auto
  then show ?case by (simp add: is_ws_def parse_literal_def)
next
  case (JNum i)
  then obtain m where m: "n = Suc m" by (cases n) auto
  obtain c cs where c: "show_int i = c # cs" "c = CHR ''-'' \<or> is_digit c"
    using show_int_head [of i] by blast
  have nw: "\<not> is_ws c" "c \<noteq> DQ" "c \<noteq> CHR ''[''" "c \<noteq> CHR ''{''"
    using c(2) by (auto simp: is_ws_def is_digit_def)
  have lit: "parse_literal (c # cs @ r) = parse_number (c # cs @ r)"
    using c(2) by (auto simp: parse_literal_def is_digit_def)
  have "parse_number (show_int i @ r) = Some (JNum i, r)"
    using parse_number_show_int [OF JNum.prems(5)] .
  then show ?case using m c(1) nw lit by simp
next
  case (JStr s)
  then obtain m where "n = Suc m" by (cases n) auto
  then show ?case by (simp add: is_ws_def QuoteJSONString_def parse_string_body)
next
  case (JArr xs)
  obtain m where m: "n = Suc m" using JArr.prems(4) by (cases n) auto
  let ?gi = "ind @ gap"
  let ?txt = "\<lambda>x. the (SerializeJSONProperty gap ?gi x)"
  have items: "SerializeJSONArray gap ?gi xs = map ?txt xs"
    using JArr.prems(1) by (simp add: ser_array)
  show ?case
  proof (cases "xs = []")
    case True
    then show ?thesis using m by (simp add: wrap_def is_ws_def)
  next
    case False
    obtain w0 w2 where w: "list_all is_ws w0" "list_all is_ws w2"
      "wrap CHR ''['' CHR '']'' gap ind (map ?txt xs)
         = CHR ''['' # w0 @ join (CHR '','' # w0) (map ?txt xs) @ w2 @ [CHR '']'']"
      using wrap_nonempty [of "map ?txt xs" gap ind "CHR ''[''" "CHR '']''"] False JArr.prems
      by auto
    have IH: "\<And>x n r. x \<in> set xs \<Longrightarrow> fuel x \<le> n \<Longrightarrow> no_digit_head r \<Longrightarrow>
                 parse_value n (?txt x @ r) = Some (x, r)"
    proof -
      fix x n r
      assume a: "x \<in> set xs" "fuel x \<le> n" "no_digit_head r"
      have "json_value x" using a(1) JArr.prems(1) by (simp add: list_all_iff)
      moreover have "list_all is_ws ?gi" using JArr.prems by simp
      ultimately show "parse_value n (?txt x @ r) = Some (x, r)"
        using JArr.IH [of x gap ?gi n r] a JArr.prems(2) by simp
    qed
    have fl: "sum_list (map (\<lambda>x. Suc (fuel x)) xs) \<le> m" using JArr.prems(4) m by simp
    have pe: "parse_elements m (w0 @ join (CHR '','' # w0) (map ?txt xs) @ w2 @ CHR '']'' # r)
                = Some (xs, r)"
      using parse_elements_join [of xs ?txt w0 w2 m r, OF IH w(1) w(2) False fl] by simp
    obtain t where t: "join (CHR '','' # w0) (map ?txt xs) = ?txt (hd xs) @ t"
      using join_head [of "map ?txt xs" "CHR '','' # w0"] False by (auto simp: hd_map)
    have "json_value (hd xs)" using False JArr.prems(1) by (cases xs) auto
    then obtain c cs where c: "?txt (hd xs) = c # cs" "value_start c"
      using ser_some [of "hd xs" gap ?gi] ser_head [of gap ?gi "hd xs"] by auto
    have sk: "skip_ws (w0 @ join (CHR '','' # w0) (map ?txt xs) @ w2 @ CHR '']'' # r)
                = c # cs @ t @ w2 @ CHR '']'' # r"
      using w(1) t c by (simp add: skip_ws_append value_start_def)
    show ?thesis using m items w(3) sk pe c(2)
      by (simp add: is_ws_def value_start_def)
  qed
next
  case (JObj kvs)
  obtain m where m: "n = Suc m" using JObj.prems(4) by (cases n) auto
  let ?gi = "ind @ gap"
  let ?sp = "if gap = [] then [] else '' ''"
  let ?txt = "\<lambda>kv. the (SerializeJSONProperty gap ?gi (snd kv))"
  let ?item = "\<lambda>kv. QuoteJSONString (fst kv) @ '':'' @ ?sp @ ?txt kv"
  have items: "SerializeJSONObject gap ?gi kvs = map ?item kvs"
    using JObj.prems(1) by (simp add: ser_object)
  show ?case
  proof (cases "kvs = []")
    case True
    then show ?thesis using m by (simp add: wrap_def is_ws_def)
  next
    case False
    obtain w0 w2 where w: "list_all is_ws w0" "list_all is_ws w2"
      "wrap CHR ''{'' CHR ''}'' gap ind (map ?item kvs)
         = CHR ''{'' # w0 @ join (CHR '','' # w0) (map ?item kvs) @ w2 @ [CHR ''}'']"
      using wrap_nonempty [of "map ?item kvs" gap ind "CHR ''{''" "CHR ''}''"] False JObj.prems
      by auto
    have IH: "\<And>kv n r. kv \<in> set kvs \<Longrightarrow> fuel (snd kv) \<le> n \<Longrightarrow> no_digit_head r \<Longrightarrow>
                 parse_value n (?txt kv @ r) = Some (snd kv, r)"
    proof -
      fix kv n r
      assume a: "kv \<in> set kvs" "fuel (snd kv) \<le> n" "no_digit_head r"
      have "snd kv \<in> Basic_BNFs.snds kv" by (cases kv) simp
      moreover have "json_value (snd kv)" using a(1) JObj.prems(1) by (simp add: list_all_iff)
      moreover have "list_all is_ws ?gi" using JObj.prems by simp
      ultimately show "parse_value n (?txt kv @ r) = Some (snd kv, r)"
        using JObj.IH [of kv "snd kv" gap ?gi n r] a JObj.prems(2) by simp
    qed
    have sp: "list_all is_ws ?sp" by (simp add: is_ws_def)
    have fl: "sum_list (map (\<lambda>kv. Suc (fuel (snd kv))) kvs) \<le> m" using JObj.prems(4) m by simp
    have pm: "parse_members m (w0 @ join (CHR '','' # w0) (map ?item kvs) @ w2 @ CHR ''}'' # r)
                = Some (kvs, r)"
      using parse_members_join [of kvs ?txt w0 w2 ?sp m r, OF IH w(1) w(2) sp False fl] by simp
    obtain t where t: "join (CHR '','' # w0) (map ?item kvs) = ?item (hd kvs) @ t"
      using join_head [of "map ?item kvs" "CHR '','' # w0"] False by (auto simp: hd_map)
    have sk: "skip_ws (w0 @ join (CHR '','' # w0) (map ?item kvs) @ w2 @ CHR ''}'' # r)
                = ?item (hd kvs) @ t @ w2 @ CHR ''}'' # r"
      using w(1) t by (simp add: skip_ws_append QuoteJSONString_def is_ws_def)
    have fd: "foldl CreateDataProperty [] kvs = kvs"
      using foldl_CreateDataProperty [of "[]" kvs] JObj.prems(1) by simp
    show ?thesis using m items w(3) sk pm fd
      by (simp add: is_ws_def QuoteJSONString_def)
  qed
qed

lemma join_length:
  "items \<noteq> [] \<Longrightarrow> sep \<noteq> [] \<Longrightarrow>
   sum_list (map (\<lambda>i. Suc (length i)) items) \<le> Suc (length (join sep items))"
proof (induction sep items rule: join.induct)
  case (3 sep x y ys)
  then show ?case by (cases sep) auto
qed simp_all

lemma wrap_length:
  "items \<noteq> [] \<Longrightarrow> sum_list (map (\<lambda>i. Suc (length i)) items) < length (wrap opn cls gap ind items)"
proof -
  assume ne: "items \<noteq> []"
  have a: "sum_list (map (\<lambda>i. Suc (length i)) items) \<le> Suc (length (join '','' items))"
    using join_length [OF ne] by simp
  have b: "sum_list (map (\<lambda>i. Suc (length i)) items)
             \<le> Suc (length (join (CHR '','' # NL # ind @ gap) items))"
    using join_length [OF ne] by simp
  show ?thesis using ne a b by (simp add: wrap_def)
qed

lemma sum_list_mono_map:
  "(\<And>x. x \<in> set xs \<Longrightarrow> f x \<le> (g x :: nat)) \<Longrightarrow> sum_list (map f xs) \<le> sum_list (map g xs)"
  by (induction xs) (auto intro: add_mono)

lemma fuel_le_length:
  "json_value v \<Longrightarrow> fuel v \<le> length (the (SerializeJSONProperty gap ind v))"
proof (induction v arbitrary: gap ind)
  case (JNum i)
  then show ?case using show_int_head [of i] by auto
next
  case (JStr s)
  then show ?case by (simp add: QuoteJSONString_def)
next
  case (JArr xs)
  let ?txt = "\<lambda>x. the (SerializeJSONProperty gap (ind @ gap) x)"
  have items: "SerializeJSONArray gap (ind @ gap) xs = map ?txt xs"
    using JArr.prems by (simp add: ser_array)
  show ?case
  proof (cases "xs = []")
    case True
    then show ?thesis by (simp add: wrap_def)
  next
    case False
    have "sum_list (map (\<lambda>x. Suc (fuel x)) xs) \<le> sum_list (map (\<lambda>x. Suc (length (?txt x))) xs)"
      using JArr.IH JArr.prems by (intro sum_list_mono_map) (simp add: list_all_iff)
    also have "\<dots> = sum_list (map (\<lambda>i. Suc (length i)) (map ?txt xs))"
      by (simp add: comp_def)
    also have "\<dots> < length (wrap CHR ''['' CHR '']'' gap ind (map ?txt xs))"
      using False by (intro wrap_length) simp
    finally show ?thesis using items by simp
  qed
next
  case (JObj kvs)
  let ?sp = "if gap = [] then [] else '' ''"
  let ?txt = "\<lambda>kv. the (SerializeJSONProperty gap (ind @ gap) (snd kv))"
  let ?item = "\<lambda>kv. QuoteJSONString (fst kv) @ '':'' @ ?sp @ ?txt kv"
  have items: "SerializeJSONObject gap (ind @ gap) kvs = map ?item kvs"
    using JObj.prems by (simp add: ser_object)
  show ?case
  proof (cases "kvs = []")
    case True
    then show ?thesis by (simp add: wrap_def)
  next
    case False
    have one: "\<And>kv. kv \<in> set kvs \<Longrightarrow> Suc (fuel (snd kv)) \<le> Suc (length (?item kv))"
    proof -
      fix kv assume a: "kv \<in> set kvs"
      have "snd kv \<in> Basic_BNFs.snds kv" by (cases kv) simp
      moreover have "json_value (snd kv)" using a JObj.prems by (simp add: list_all_iff)
      ultimately have "fuel (snd kv) \<le> length (?txt kv)"
        using JObj.IH [of kv "snd kv" gap "ind @ gap"] a by simp
      then show "Suc (fuel (snd kv)) \<le> Suc (length (?item kv))" by simp
    qed
    have "sum_list (map (\<lambda>kv. Suc (fuel (snd kv))) kvs)
            \<le> sum_list (map (\<lambda>kv. Suc (length (?item kv))) kvs)"
      using one by (intro sum_list_mono_map) simp
    also have "\<dots> = sum_list (map (\<lambda>i. Suc (length i)) (map ?item kvs))"
      by (simp add: comp_def)
    also have "\<dots> < length (wrap CHR ''{'' CHR ''}'' gap ind (map ?item kvs))"
      using False by (intro wrap_length) simp
    finally show ?thesis using items by simp
  qed
qed simp_all

lemma JSON_stringify_some: "json_value v \<Longrightarrow> \<exists>t. JSON_stringify v space = Some t"
  using ser_some by (simp add: JSON_stringify_def)

lemma JSON_parse_stringify:
  assumes "json_value v"
  shows "JSON_parse (the (JSON_stringify v space)) = Inr v"
proof -
  let ?gap = "replicate (nat (min 10 space)) CHR '' ''"
  let ?t = "the (SerializeJSONProperty ?gap [] v)"
  have ws: "list_all is_ws ?gap" by (simp add: list_all_iff is_ws_def)
  have fl: "fuel v \<le> 2 * length ?t + 2"
    using fuel_le_length [OF assms, of ?gap "[]"] by simp
  have "parse_value (2 * length ?t + 2) (?t @ []) = Some (v, [])"
    using assms ws fl by (intro parse_serialize) (simp_all add: no_digit_head_def)
  then show ?thesis by (simp add: JSON_parse_def JSON_stringify_def)
qed







section \<open>Key paths\<close>

lemma isKeyPath_values:
  "isKeyPath x \<in> {JBool True, JBool False, JUndefined}"
  "isKeyPath_loop xs \<in> {JBool True, JBool False, JUndefined}"
  by (induction x and xs rule: isKeyPath_isKeyPath_loop.induct) auto

lemma isKeyPath_loop_true:
  "(\<And>x. x \<in> set xs \<Longrightarrow> (isKeyPath x = JBool True) = spec_valid_key_path x) \<Longrightarrow>
   (isKeyPath_loop xs = JBool True) = (xs \<noteq> [] \<and> list_all spec_valid_key_path xs)"
proof (induction xs)
  case Nil
  show ?case by simp
next
  case (Cons x xs)
  have vals: "isKeyPath x \<in> {JBool True, JBool False, JUndefined}"
    by (rule isKeyPath_values)
  have hd: "(isKeyPath x = JBool True) = spec_valid_key_path x"
    using Cons.prems by simp
  have tl: "(isKeyPath_loop xs = JBool True) = (xs \<noteq> [] \<and> list_all spec_valid_key_path xs)"
    using Cons by simp
  show ?case
    using vals hd tl by (cases "xs = []") auto
qed

lemma isKeyPath_true_iff: "(isKeyPath x = JBool True) = spec_valid_key_path x"
proof (induction x)
  case (JArr xs)
  then show ?case using isKeyPath_loop_true [of xs] by simp
qed simp_all

lemma truthy_isKeyPath: "truthy (isKeyPath x) = (isKeyPath x = JBool True)"
  using isKeyPath_values(1) [of x] by auto

lemma truthy_isKeyPath_valid: "truthy (isKeyPath x) = spec_valid_key_path x"
  by (simp add: truthy_isKeyPath isKeyPath_true_iff)

lemma flattenKeyPath_valid:
  "spec_valid_key_path kp \<Longrightarrow> flattenKeyPath kp = JStr (spec_normalize kp)"
proof (induction kp)
  case (JArr xs)
  have m: "map (\<lambda>item. join_item (flattenKeyPath item)) xs = map spec_normalize xs"
  proof (rule map_cong [OF refl])
    fix x assume x: "x \<in> set xs"
    then have "spec_valid_key_path x" using JArr.prems by (simp add: list_all_iff)
    then have "flattenKeyPath x = JStr (spec_normalize x)" using JArr.IH x by simp
    then show "join_item (flattenKeyPath x) = spec_normalize x" by (simp add: join_item_def)
  qed
  show ?case by (simp only: flattenKeyPath.simps spec_normalize.simps m)
qed simp_all

lemma arg_simps [simp]:
  "arg (x # xs) 0 = x"
  "arg [] i = JUndefined"
  "arg (x # xs) (Suc i) = arg xs i"
  by (simp_all add: arg_def)

lemma arg_numerals [simp]:
  "arg (x # xs) 1 = arg xs 0"
  "arg (x # xs) 2 = arg xs 1"
  by (simp_all add: arg_def numeral_2_eq_2)

lemma splice_keyPath_valid:
  "spec_valid_key_path kp \<Longrightarrow> splice_keyPath (kp # rest) = JStr (spec_normalize kp) # rest"
  by (simp add: splice_keyPath_def truthy_isKeyPath_valid flattenKeyPath_valid)

lemma splice_keyPath_invalid:
  "\<not> spec_valid_key_path (arg args 0) \<Longrightarrow> splice_keyPath args = JNull # args"
  by (simp add: splice_keyPath_def truthy_isKeyPath_valid)

lemma spec_valid_normalize: "spec_valid_key_path (JStr (spec_normalize kp))"
  by simp

text \<open>
  C5. The key-path test returns \<^verbatim>\<open>true\<close> exactly for a string and for a non-empty array
  whose elements are all valid key paths, recursively; for every other value (a number,
  an object, the empty array, an array with an invalid element) its result is falsy:
  \<^verbatim>\<open>false\<close>, or \<^verbatim>\<open>undefined\<close> for the empty array.
\<close>

theorem C5_isKeyPath_iff_valid:
  "(isKeyPath x = JBool True) = spec_valid_key_path x
   \<and> truthy (isKeyPath x) = spec_valid_key_path x
   \<and> (isKeyPath x = JBool True \<or> isKeyPath x = JBool False \<or> isKeyPath x = JUndefined)
   \<and> isKeyPath (JNum n) = JBool False
   \<and> isKeyPath (JObj kvs) = JBool False
   \<and> isKeyPath (JArr []) = JUndefined"
  using isKeyPath_true_iff [of x] truthy_isKeyPath [of x] isKeyPath_values(1) [of x]
  by auto

text \<open>
  C6. Flattening a valid key path gives its normal form: a string unchanged, an array
  the normal forms of its elements, left to right, joined with a dot; so
  \<^verbatim>\<open>['a', 'b']\<close> gives \<^verbatim>\<open>a.b\<close> and \<^verbatim>\<open>[['a', 'b'], 'c']\<close> gives \<^verbatim>\<open>a.b.c\<close>, and
  \<^verbatim>\<open>set\<close> (blocking or not) with a valid key path does what it does with the
  flattened string in its place.
\<close>

theorem C6_flattenKeyPath_normal_form:
  "(spec_valid_key_path kp \<longrightarrow>
      flattenKeyPath kp = JStr (spec_normalize kp)
      \<and> settings_setSync cr cfg (kp # rest) s
          = settings_setSync cr cfg (JStr (spec_normalize kp) # rest) s
      \<and> settings_set cr cfg (kp # rest) s
          = settings_set cr cfg (JStr (spec_normalize kp) # rest) s)
   \<and> spec_normalize (JArr xs) = join ''.'' (map spec_normalize xs)
   \<and> flattenKeyPath (JStr p) = JStr p
   \<and> flattenKeyPath (JArr [JStr ''a'', JStr ''b'']) = JStr ''a.b''
   \<and> flattenKeyPath (JArr [JArr [JStr ''a'', JStr ''b''], JStr ''c'']) = JStr ''a.b.c''"
proof -
  have a: "spec_valid_key_path kp \<Longrightarrow> flattenKeyPath kp = JStr (spec_normalize kp)"
    by (rule flattenKeyPath_valid)
  have b: "spec_valid_key_path kp \<Longrightarrow>
      settings_setSync cr cfg (kp # rest) s
        = settings_setSync cr cfg (JStr (spec_normalize kp) # rest) s"
    using splice_keyPath_valid [of kp rest] splice_keyPath_valid [of "JStr (spec_normalize kp)" rest]
    by (simp add: settings_setSync_def)
  have c: "spec_valid_key_path kp \<Longrightarrow>
      settings_set cr cfg (kp # rest) s
        = settings_set cr cfg (JStr (spec_normalize kp) # rest) s"
    using splice_keyPath_valid [of kp rest] splice_keyPath_valid [of "JStr (spec_normalize kp)" rest]
    by (simp add: settings_set_def)
  have d: "flattenKeyPath (JArr [JStr ''a'', JStr ''b'']) = JStr ''a.b''"
    by (simp add: join_item_def)
  have e: "flattenKeyPath (JArr [JArr [JStr ''a'', JStr ''b''], JStr ''c'']) = JStr ''a.b.c''"
    by (simp add: join_item_def)
  show ?thesis using a b c d e by simp
qed

theorem C6_witness:
  "spec_valid_key_path (JArr [JArr [JStr ''a'', JStr ''b''], JStr ''c''])
   \<and> spec_normalize (JArr [JArr [JStr ''a'', JStr ''b''], JStr ''c'']) = ''a.b.c''
   \<and> settings_setSync test_crypto defaults
        [JArr [JArr [JStr ''a'', JStr ''b''], JStr ''c''], JNum 1] fresh_store
      = settings_setSync test_crypto defaults [JStr ''a.b.c'', JNum 1] fresh_store
   \<and> file_data (snd (settings_setSync test_crypto defaults
        [JArr [JArr [JStr ''a'', JStr ''b''], JStr ''c''], JNum 1] fresh_store))
      = [CHR ''{'', DQ, CHR ''a'', DQ, CHR '':'', CHR ''{'', DQ, CHR ''b'', DQ, CHR '':'',
         CHR ''{'', DQ, CHR ''c'', DQ, CHR '':'', CHR ''1'', CHR ''}'', CHR ''}'', CHR ''}'']"
proof -
  have v: "spec_valid_key_path (JArr [JArr [JStr ''a'', JStr ''b''], JStr ''c''])"
    by simp
  have n: "spec_normalize (JArr [JArr [JStr ''a'', JStr ''b''], JStr ''c'']) = ''a.b.c''"
    by simp
  have f: "file_data (snd (settings_setSync test_crypto defaults [JStr ''a.b.c'', JNum 1] fresh_store))
      = [CHR ''{'', DQ, CHR ''a'', DQ, CHR '':'', CHR ''{'', DQ, CHR ''b'', DQ, CHR '':'',
         CHR ''{'', DQ, CHR ''c'', DQ, CHR '':'', CHR ''1'', CHR ''}'', CHR ''}'', CHR ''}'']"
    by code_simp
  show ?thesis
    using v n f
      C6_flattenKeyPath_normal_form [of "JArr [JArr [JStr ''a'', JStr ''b''], JStr ''c'']"
        test_crypto defaults "[JNum 1]" fresh_store]
    by simp
qed

section \<open>The accessor: reading back what was written\<close>










section \<open>The codec\<close>

lemma prepare_plain:
  "\<not> encryption_on cfg \<Longrightarrow>
   prepareSettingsData cr cfg doc
     = Inr (JSON_stringify doc (if prettify cfg then numSpaces cfg else 0))"
  by (simp add: prepareSettingsData_def Let_def)

lemma prepare_encrypted:
  "encryption_on cfg \<Longrightarrow>
   JSON_stringify doc (if prettify cfg then numSpaces cfg else 0) = Some text \<Longrightarrow>
   prepareSettingsData cr cfg doc
     = (case encryptData cr cfg text of Inl e \<Rightarrow> Inl e | Inr enc \<Rightarrow> Inr (Some enc))"
  by (simp add: prepareSettingsData_def Let_def)

lemma codec_round_trip:
  assumes doc: "json_value doc"
    and cipher: "encryption_on cfg \<longrightarrow> working_cipher cr cfg"
  shows "\<exists>bytes. prepareSettingsData cr cfg doc = Inr (Some bytes)
           \<and> reconstructSettingsData cr cfg bytes = Inr doc"
proof -
  let ?n = "if prettify cfg then numSpaces cfg else 0"
  obtain jt where jt: "JSON_stringify doc ?n = Some jt"
    using JSON_stringify_some [OF doc] by blast
  have parsed: "JSON_parse jt = Inr doc"
    using JSON_parse_stringify [OF doc, of ?n] jt by simp
  show ?thesis
  proof (cases "encryption_on cfg")
    case False
    then show ?thesis
      using jt parsed prepare_plain [of cfg cr doc]
      by (simp add: reconstructSettingsData_def)
  next
    case True
    then obtain enc where enc: "encryptData cr cfg jt = Inr enc"
        "decryptData cr cfg enc = Inr jt"
      using cipher unfolding working_cipher_def by blast
    then show ?thesis
      using True jt parsed prepare_encrypted [OF True jt, of cr]
      by (simp add: reconstructSettingsData_def)
  qed
qed

lemma working_test_crypto:
  "key_of cfg \<noteq> ''wrong'' \<Longrightarrow> working_cipher test_crypto cfg"
  by (simp add: working_cipher_def encryptData_def decryptData_def test_crypto_def)

text \<open>
  C4. Decoding what encoding wrote gives the document back: for every JSON-representable
  document and every configuration, pretty-printed or not, encrypted or not; with
  encryption switched on, this is so when the cipher of the configuration works.
\<close>

theorem C4_decode_encode:
  assumes "json_value doc"
    and "encryption_on cfg \<longrightarrow> working_cipher cr cfg"
  shows "\<exists>bytes. prepareSettingsData cr cfg doc = Inr (Some bytes)
           \<and> reconstructSettingsData cr cfg bytes = Inr doc"
  using assms by (rule codec_round_trip)

theorem C4_witness:
  "json_value (JObj [(''foo'', JArr [JStr ''bar'', JNum (- 7), JNull])])
   \<and> encryption_on (defaults\<lparr>encryptionKey := Some ''secret'', prettify := True\<rparr>)
   \<and> working_cipher test_crypto (defaults\<lparr>encryptionKey := Some ''secret'', prettify := True\<rparr>)
   \<and> (\<exists>bytes.
        prepareSettingsData test_crypto
          (defaults\<lparr>encryptionKey := Some ''secret'', prettify := True\<rparr>)
          (JObj [(''foo'', JArr [JStr ''bar'', JNum (- 7), JNull])]) = Inr (Some bytes)
        \<and> reconstructSettingsData test_crypto
            (defaults\<lparr>encryptionKey := Some ''secret'', prettify := True\<rparr>) bytes
          = Inr (JObj [(''foo'', JArr [JStr ''bar'', JNum (- 7), JNull])]))"
proof -
  let ?cfg = "defaults\<lparr>encryptionKey := Some ''secret'', prettify := True\<rparr>"
  let ?doc = "JObj [(''foo'', JArr [JStr ''bar'', JNum (- 7), JNull])]"
  have d: "json_value ?doc" by simp
  have k: "encryption_on ?cfg" by (simp add: encryption_on_def defaults_def)
  have w: "working_cipher test_crypto ?cfg"
    by (rule working_test_crypto) (simp add: key_of_def defaults_def)
  have w': "encryption_on ?cfg \<longrightarrow> working_cipher test_crypto ?cfg" using w by simp
  show ?thesis using d k w C4_decode_encode [OF d w'] by blast
qed

text \<open>
  C9, as the code has it. Encoding writes the document as JSON text: on one line
  without white space when \<^verbatim>\<open>prettify\<close> is off; indented by \<^verbatim>\<open>numSpaces\<close> spaces a
  level when it is on and \<^verbatim>\<open>numSpaces\<close> is between one and ten; indented by ten
  spaces when \<^verbatim>\<open>numSpaces\<close> is larger, and on one line when it is below one
  (\<^verbatim>\<open>JSON.stringify\<close> caps the indentation). With an encryption key the text is
  then enciphered. With \<^verbatim>\<open>prettify\<close> on and \<^verbatim>\<open>numSpaces\<close> four,
  \<^verbatim>\<open>setSync('foo', 'bar')\<close> on a fresh store leaves the four-space-indented object in
  the file.
\<close>

theorem C9_encode_indentation:
  "(\<not> encryption_on cfg \<longrightarrow>
      prepareSettingsData cr cfg doc
        = Inr (spec_indented (if prettify cfg then nat (min 10 (numSpaces cfg)) else 0) doc))
   \<and> (encryption_on cfg \<longrightarrow>
        (\<forall>text. spec_indented (if prettify cfg then nat (min 10 (numSpaces cfg)) else 0) doc
                  = Some text \<longrightarrow>
           prepareSettingsData cr cfg doc
             = (case encryptData cr cfg text of Inl e \<Rightarrow> Inl e | Inr enc \<Rightarrow> Inr (Some enc))))
   \<and> file_data (snd (settings_setSync test_crypto (defaults\<lparr>prettify := True, numSpaces := 4\<rparr>)
        [JStr ''foo'', JStr ''bar''] fresh_store))
      = [CHR ''{'', NL] @ ''    '' @ [DQ] @ ''foo'' @ [DQ] @ '': '' @ [DQ] @ ''bar'' @ [DQ, NL, CHR ''}'']"
proof -
  let ?k = "if prettify cfg then nat (min 10 (numSpaces cfg)) else 0"
  have eq: "JSON_stringify doc (if prettify cfg then numSpaces cfg else 0) = spec_indented ?k doc"
    by (simp add: JSON_stringify_def spec_indented_def)
  have a: "\<not> encryption_on cfg \<Longrightarrow> prepareSettingsData cr cfg doc = Inr (spec_indented ?k doc)"
    using eq by (simp add: prepare_plain)
  have b: "\<And>text. encryption_on cfg \<Longrightarrow> spec_indented ?k doc = Some text \<Longrightarrow>
             prepareSettingsData cr cfg doc
               = (case encryptData cr cfg text of Inl e \<Rightarrow> Inl e | Inr enc \<Rightarrow> Inr (Some enc))"
    using eq prepare_encrypted [of cfg doc _ cr] by simp
  have c: "file_data (snd (settings_setSync test_crypto (defaults\<lparr>prettify := True, numSpaces := 4\<rparr>)
        [JStr ''foo'', JStr ''bar''] fresh_store))
      = [CHR ''{'', NL] @ ''    '' @ [DQ] @ ''foo'' @ [DQ] @ '': '' @ [DQ] @ ''bar'' @ [DQ, NL, CHR ''}'']"
    by code_simp
  show ?thesis using a b c by blast
qed

theorem C9_witness:
  "\<not> encryption_on (defaults\<lparr>prettify := True, numSpaces := 4\<rparr>)
   \<and> prepareSettingsData test_crypto (defaults\<lparr>prettify := True, numSpaces := 4\<rparr>)
        (JObj [(''foo'', JStr ''bar'')])
      = Inr (Some ([CHR ''{'', NL] @ ''    '' @ [DQ] @ ''foo'' @ [DQ] @ '': '' @ [DQ] @ ''bar''
                     @ [DQ, NL, CHR ''}'']))
   \<and> encryption_on (defaults\<lparr>encryptionKey := Some ''secret''\<rparr>)
   \<and> prepareSettingsData test_crypto (defaults\<lparr>encryptionKey := Some ''secret''\<rparr>)
        (JObj [(''foo'', JStr ''bar'')])
      = Inr (Some (rev ([CHR ''{'', DQ] @ ''foo'' @ [DQ] @ '':'' @ [DQ] @ ''bar'' @ [DQ, CHR ''}''])))"
proof -
  let ?cfg = "defaults\<lparr>prettify := True, numSpaces := 4\<rparr>"
  let ?enc = "defaults\<lparr>encryptionKey := Some ''secret''\<rparr>"
  let ?doc = "JObj [(''foo'', JStr ''bar'')]"
  have off: "\<not> encryption_on ?cfg" by (simp add: encryption_on_def defaults_def)
  have on: "encryption_on ?enc" by (simp add: encryption_on_def defaults_def)
  have t4: "spec_indented (if prettify ?cfg then nat (min 10 (numSpaces ?cfg)) else 0) ?doc
      = Some ([CHR ''{'', NL] @ ''    '' @ [DQ] @ ''foo'' @ [DQ] @ '': '' @ [DQ] @ ''bar''
                @ [DQ, NL, CHR ''}''])"
    by code_simp
  have t0: "spec_indented (if prettify ?enc then nat (min 10 (numSpaces ?enc)) else 0) ?doc
      = Some ([CHR ''{'', DQ] @ ''foo'' @ [DQ] @ '':'' @ [DQ] @ ''bar'' @ [DQ, CHR ''}''])"
    by code_simp
  have e: "encryptData test_crypto ?enc
             ([CHR ''{'', DQ] @ ''foo'' @ [DQ] @ '':'' @ [DQ] @ ''bar'' @ [DQ, CHR ''}''])
         = Inr (rev ([CHR ''{'', DQ] @ ''foo'' @ [DQ] @ '':'' @ [DQ] @ ''bar'' @ [DQ, CHR ''}'']))"
    by (simp add: encryptData_def test_crypto_def)
  have p1: "prepareSettingsData test_crypto ?cfg ?doc
      = Inr (Some ([CHR ''{'', NL] @ ''    '' @ [DQ] @ ''foo'' @ [DQ] @ '': '' @ [DQ] @ ''bar''
                     @ [DQ, NL, CHR ''}'']))"
    using C9_encode_indentation [of ?cfg test_crypto ?doc] off t4 by simp
  have p2: "prepareSettingsData test_crypto ?enc ?doc
      = Inr (Some (rev ([CHR ''{'', DQ] @ ''foo'' @ [DQ] @ '':'' @ [DQ] @ ''bar'' @ [DQ, CHR ''}''])))"
    using C9_encode_indentation [of ?enc test_crypto ?doc] on t0 e by simp
  show ?thesis using off on p1 p2 by blast
qed

text \<open>
  C9 as stated fails: with \<^verbatim>\<open>prettify\<close> on and \<^verbatim>\<open>numSpaces\<close> twelve, the member of
  \<^verbatim>\<open>{"foo": "bar"}\<close> is indented by ten spaces, not by twelve.
\<close>

theorem C9_counterexample:
  "prepareSettingsData test_crypto (defaults\<lparr>prettify := True, numSpaces := 12\<rparr>)
      (JObj [(''foo'', JStr ''bar'')])
     = Inr (Some ([CHR ''{'', NL] @ replicate 10 CHR '' '' @ [DQ] @ ''foo'' @ [DQ] @ '': ''
                    @ [DQ] @ ''bar'' @ [DQ, NL, CHR ''}'']))
   \<and> prepareSettingsData test_crypto (defaults\<lparr>prettify := True, numSpaces := 12\<rparr>)
        (JObj [(''foo'', JStr ''bar'')])
     \<noteq> Inr (spec_indented 12 (JObj [(''foo'', JStr ''bar'')]))"
  by code_simp

section \<open>The blocking store: what a call leaves behind\<close>

lemma later_refl: "later s s []"
  by (simp add: later_def)

lemma later_trans: "later s s1 evs \<Longrightarrow> later s1 s2 evs' \<Longrightarrow> later s s2 (evs @ evs')"
  by (simp add: later_def)

lemma later_log: "later s (log ev s) [ev]"
  by (simp add: later_def log_def)

lemma first_write_append:
  "first_write (evs @ evs') = (case first_write evs of None \<Rightarrow> first_write evs' | Some b \<Rightarrow> Some b)"
  by (induction evs rule: first_write.induct) simp_all

lemma ensureSettingsDirSync_ok:
  assumes "ensureSettingsDirSync s = (None, s1)"
  shows "dir_stat s1 = None \<and> file_stat s1 = file_stat s \<and> file_data s1 = file_data s
         \<and> (\<exists>evs. later s s1 evs \<and> first_write evs = None)"
proof (cases "dir_stat s")
  case None
  then have "s1 = log StatDir s"
    using assms by (simp add: ensureSettingsDirSync_def do_stat_dir_def)
  then show ?thesis using None later_log [of s StatDir] by (auto simp: log_def)
next
  case (Some e)
  then have m: "is_ENOENT e" "do_mkdirp (log StatDir s) = (None, s1)"
    using assms by (auto simp: ensureSettingsDirSync_def do_stat_dir_def split: if_splits)
  then have s1: "s1 = log Mkdirp ((log StatDir s)\<lparr>dir_stat := None\<rparr>)"
    by (auto simp: do_mkdirp_def split: option.splits)
  have "later s s1 [StatDir, Mkdirp]" by (simp add: s1 later_def log_def)
  then show ?thesis using s1 by (auto simp: log_def)
qed

lemma ensureSettingsDirSync_err:
  assumes "ensureSettingsDirSync s = (Some e, s1)"
  shows "file_stat s1 = file_stat s \<and> file_data s1 = file_data s
         \<and> (\<exists>evs. later s s1 evs \<and> first_write evs = None)"
proof -
  have "s1 = log StatDir s \<or> s1 = log Mkdirp (log StatDir s)"
    using assms
    by (auto simp: ensureSettingsDirSync_def do_stat_dir_def do_mkdirp_def
        split: option.splits if_splits)
  moreover have "later s (log StatDir s) [StatDir]" by (rule later_log)
  moreover have "later s (log Mkdirp (log StatDir s)) [StatDir, Mkdirp]"
    by (simp add: later_def log_def)
  ultimately show ?thesis by (auto simp: log_def)
qed

lemma do_write_ok:
  assumes "do_write atomic data s = (None, s2)"
  shows "s2 = log (WriteFile atomic (bytes_of s data)) (s\<lparr>file_stat := None, file_data := bytes_of s data\<rparr>)"
  using assms by (auto simp: do_write_def bytes_of_def Let_def split: option.splits)

lemma do_write_err:
  assumes "do_write atomic data s = (Some e, s2)"
  shows "s2 = log (WriteFile atomic (bytes_of s data)) s"
  using assms by (auto simp: do_write_def bytes_of_def Let_def split: option.splits)

lemma writeSettingsFileSync_ok:
  assumes "writeSettingsFileSync cfg data s = (None, s2)"
  shows "dir_stat s2 = None \<and> file_stat s2 = None \<and> file_data s2 = bytes_of s data
         \<and> (\<exists>evs. later s s2 evs \<and> first_write evs = Some (bytes_of s data))"
proof -
  obtain s1 where d: "ensureSettingsDirSync s = (None, s1)"
      and w: "do_write (atomicSave cfg) data s1 = (None, s2)"
    using assms
    by (cases "ensureSettingsDirSync s")
       (auto simp: writeSettingsFileSync_def split: option.splits if_splits)
  obtain evs where e: "dir_stat s1 = None" "later s s1 evs" "first_write evs = None"
    using ensureSettingsDirSync_ok [OF d] by blast
  have b: "bytes_of s1 data = bytes_of s data"
    using e(2) by (cases data) (simp_all add: bytes_of_def later_def)
  have s2: "s2 = log (WriteFile (atomicSave cfg) (bytes_of s data))
                   (s1\<lparr>file_stat := None, file_data := bytes_of s data\<rparr>)"
    using do_write_ok [OF w] b by simp
  have "later s s2 (evs @ [WriteFile (atomicSave cfg) (bytes_of s data)])"
    using e(2) by (simp add: s2 later_def log_def)
  moreover have "first_write (evs @ [WriteFile (atomicSave cfg) (bytes_of s data)])
                   = Some (bytes_of s data)"
    using e(3) by (simp add: first_write_append)
  ultimately show ?thesis using s2 e(1) by (auto simp: log_def)
qed

lemma writeSettingsFileSync_later:
  "writeSettingsFileSync cfg data s = (r, s2) \<Longrightarrow> \<exists>evs. later s s2 evs"
proof -
  assume a: "writeSettingsFileSync cfg data s = (r, s2)"
  show ?thesis
  proof (cases "ensureSettingsDirSync s")
    case (Pair e s1)
    show ?thesis
    proof (cases e)
      case None
      then obtain evs where l: "later s s1 evs"
        using ensureSettingsDirSync_ok [of s s1] Pair by blast
      have w: "do_write (atomicSave cfg) data s1 = (r, s2)"
        using a Pair None by (auto simp: writeSettingsFileSync_def split: if_splits)
      have "\<exists>evs'. later s1 s2 evs'"
        using w by (auto simp: do_write_def Let_def later_def log_def split: option.splits)
      then show ?thesis using l later_trans by blast
    next
      case (Some err)
      then have "s2 = s1" using a Pair by (simp add: writeSettingsFileSync_def)
      then show ?thesis using ensureSettingsDirSync_err [of s err s1] Pair Some by blast
    qed
  qed
qed

lemma saveSettingsSync_ok:
  assumes "saveSettingsSync cr cfg obj s = (None, s2)"
  shows "\<exists>data. prepareSettingsData cr cfg obj = Inr data
           \<and> dir_stat s2 = None \<and> file_stat s2 = None \<and> file_data s2 = bytes_of s data
           \<and> (\<exists>evs. later s s2 evs \<and> first_write evs = Some (bytes_of s data))"
proof (cases "prepareSettingsData cr cfg obj")
  case (Inl e)
  then show ?thesis using assms by (simp add: saveSettingsSync_def)
next
  case (Inr data)
  then have "writeSettingsFileSync cfg data s = (None, s2)"
    using assms by (simp add: saveSettingsSync_def)
  then show ?thesis using writeSettingsFileSync_ok Inr by blast
qed

lemma saveSettingsSync_later:
  "saveSettingsSync cr cfg obj s = (r, s2) \<Longrightarrow> \<exists>evs. later s s2 evs"
proof (cases "prepareSettingsData cr cfg obj")
  case (Inl e)
  assume "saveSettingsSync cr cfg obj s = (r, s2)"
  then have "s2 = s" using Inl by (simp add: saveSettingsSync_def)
  then show ?thesis using later_refl by blast
next
  case (Inr data)
  assume "saveSettingsSync cr cfg obj s = (r, s2)"
  then have "writeSettingsFileSync cfg data s = (r, s2)"
    using Inr by (simp add: saveSettingsSync_def)
  then show ?thesis by (rule writeSettingsFileSync_later)
qed

lemma ensureSettingsFileSync_present:
  "file_stat s = None \<Longrightarrow> ensureSettingsFileSync cr cfg s = (None, log StatFile s)"
  by (simp add: ensureSettingsFileSync_def do_stat_file_def)

lemma ensureSettingsFileSync_missing:
  "file_stat s = Some e \<Longrightarrow> is_ENOENT e \<Longrightarrow>
   ensureSettingsFileSync cr cfg s = saveSettingsSync cr cfg (JObj []) (log StatFile s)"
  by (simp add: ensureSettingsFileSync_def do_stat_file_def)

lemma ensureSettingsFileSync_stat_fails:
  "file_stat s = Some e \<Longrightarrow> \<not> is_ENOENT e \<Longrightarrow>
   ensureSettingsFileSync cr cfg s = (Some e, log StatFile s)"
  by (simp add: ensureSettingsFileSync_def do_stat_file_def)

lemma ensureSettingsFileSync_ok:
  assumes "ensureSettingsFileSync cr cfg s = (None, s1)"
  shows "file_stat s1 = None \<and> (\<exists>evs. later s s1 evs)"
proof (cases "file_stat s")
  case None
  then show ?thesis
    using assms later_log [of s StatFile]
    by (auto simp: ensureSettingsFileSync_present log_def)
next
  case (Some e)
  then have ne: "is_ENOENT e"
    using assms ensureSettingsFileSync_stat_fails [of s e cr cfg] by auto
  then have sv: "saveSettingsSync cr cfg (JObj []) (log StatFile s) = (None, s1)"
    using assms Some by (simp add: ensureSettingsFileSync_missing)
  obtain evs where "file_stat s1 = None" "later (log StatFile s) s1 evs"
    using saveSettingsSync_ok [OF sv] by blast
  then show ?thesis using later_trans [OF later_log [of s StatFile]] by blast
qed


lemma readSettingsFileSync_ok:
  assumes "readSettingsFileSync cr cfg s = (Inr obj, s1)"
  shows "s1 = log ReadFile s \<and> read_error s = None \<and> file_stat s = None
         \<and> reconstructSettingsData cr cfg (file_data s) = Inr obj"
  using assms
  by (auto simp: readSettingsFileSync_def do_read_def split: option.splits)

lemma readSettingsFileSync_present:
  "file_stat s = None \<Longrightarrow> read_error s = None \<Longrightarrow>
   readSettingsFileSync cr cfg s = (reconstructSettingsData cr cfg (file_data s), log ReadFile s)"
  by (simp add: readSettingsFileSync_def do_read_def)

lemma readSettingsFileSync_later:
  "readSettingsFileSync cr cfg s = (r, s1) \<Longrightarrow> later s s1 [ReadFile]"
  by (auto simp: readSettingsFileSync_def do_read_def later_def log_def
      split: option.splits)

lemma loadSettingsSync_present:
  "file_stat s = None \<Longrightarrow> read_error s = None \<Longrightarrow>
   loadSettingsSync cr cfg s
     = (reconstructSettingsData cr cfg (file_data s), log ReadFile (log StatFile s))"
  by (simp add: loadSettingsSync_def ensureSettingsFileSync_present
      readSettingsFileSync_present log_def)

lemma loadSettingsSync_ok:
  assumes "loadSettingsSync cr cfg s = (Inr obj, s1)"
  shows "file_stat s1 = None \<and> read_error s = None
         \<and> reconstructSettingsData cr cfg (file_data s1) = Inr obj
         \<and> (\<exists>evs. later s s1 evs)"
proof -
  obtain s0 where e: "ensureSettingsFileSync cr cfg s = (None, s0)"
      and r: "readSettingsFileSync cr cfg s0 = (Inr obj, s1)"
    using assms
    by (cases "ensureSettingsFileSync cr cfg s")
       (auto simp: loadSettingsSync_def split: option.splits)
  obtain evs where l: "later s s0 evs" using ensureSettingsFileSync_ok [OF e] by blast
  have r': "s1 = log ReadFile s0" "read_error s0 = None" "file_stat s0 = None"
      "reconstructSettingsData cr cfg (file_data s0) = Inr obj"
    using readSettingsFileSync_ok [OF r] by auto
  have "later s s1 (evs @ [ReadFile])"
    using later_trans [OF l later_log [of s0 ReadFile]] r'(1) by simp
  then show ?thesis using r' l by (auto simp: log_def later_def)
qed



lemma loadSettingsSync_stat_fails:
  "file_stat s = Some e \<Longrightarrow> \<not> is_ENOENT e \<Longrightarrow>
   loadSettingsSync cr cfg s = (Inl e, log StatFile s)"
  by (simp add: loadSettingsSync_def ensureSettingsFileSync_stat_fails)

section \<open>The non-blocking store does what the blocking store does\<close>

lemma io_callback_not_Throws: "fst (io_callback r) \<noteq> Throws e"
  by (cases r rule: io_callback.cases) simp_all

lemma io_callback_idem: "io_callback (io_callback r) = io_callback r"
  by (cases r rule: io_callback.cases) simp_all

lemma io_callback_safe: "safe fn \<Longrightarrow> io_callback (fn err v s) = fn err v s"
proof -
  assume "safe fn"
  then have "\<And>e. fst (fn err v s) \<noteq> Throws e" by (simp add: safe_def)
  then show ?thesis by (cases "fn err v s" rule: io_callback.cases) auto
qed

lemma try_catch_safe: "safe fn \<Longrightarrow> try_catch (fn err v s) h = fn err v s"
proof -
  assume "safe fn"
  then have "\<And>e. fst (fn err v s) \<noteq> Throws e" by (simp add: safe_def)
  then show ?thesis by (cases "(fn err v s, h)" rule: try_catch.cases) auto
qed

lemma safe_callback: "safe (callback JFun)"
  by (simp add: safe_def callback_def)

lemma io_callback_lift0: "safe fn \<Longrightarrow> io_callback (lift0 fn r) = lift0 fn r"
  by (cases r) (simp add: io_callback_safe)

lemma mkdirp_sync: "safe fn \<Longrightarrow> mkdirp fn s = lift0 fn (do_mkdirp s)"
  by (cases "do_mkdirp s") (simp add: mkdirp_def io_callback_safe)

lemma fs_writeFile_sync:
  "safe fn \<Longrightarrow> fs_writeFile atomic data fn s = lift0 fn (do_write atomic data s)"
  by (cases "do_write atomic data s") (simp add: fs_writeFile_def io_callback_safe)

lemma ensureSettingsDir_sync:
  assumes "safe fn"
  shows "ensureSettingsDir fn s = lift0 fn (ensureSettingsDirSync s)"
proof (cases "dir_stat s")
  case None
  then show ?thesis
    using assms
    by (simp add: ensureSettingsDir_def ensureSettingsDirSync_def fs_stat_dir_def
        do_stat_dir_def io_callback_safe)
next
  case (Some e)
  then show ?thesis
    using assms
    by (simp add: ensureSettingsDir_def ensureSettingsDirSync_def fs_stat_dir_def
        do_stat_dir_def io_callback_safe mkdirp_sync io_callback_lift0)
qed

lemma safe_write_cont:
  "safe fn \<Longrightarrow>
   safe (\<lambda>err made s1.
           case err of
             Some e \<Rightarrow> fn (Some e) JUndefined s1
           | None \<Rightarrow>
               if atomicSave cfg then fs_writeFile True data fn s1
               else fs_writeFile False data fn s1)"
  by (auto simp: safe_def fs_writeFile_def io_callback_not_Throws split: option.splits)

lemma writeSettingsFile_sync:
  assumes "safe fn"
  shows "writeSettingsFile cfg data fn s = lift0 fn (writeSettingsFileSync cfg data s)"
proof -
  let ?k = "\<lambda>err made s1.
              case err of
                Some e \<Rightarrow> fn (Some e) JUndefined s1
              | None \<Rightarrow>
                  if atomicSave cfg then fs_writeFile True data fn s1
                  else fs_writeFile False data fn s1"
  have "writeSettingsFile cfg data fn s = lift0 ?k (ensureSettingsDirSync s)"
    unfolding writeSettingsFile_def
    by (rule ensureSettingsDir_sync [OF safe_write_cont [OF assms]])
  also have "\<dots> = lift0 fn (writeSettingsFileSync cfg data s)"
    using assms
    by (cases "ensureSettingsDirSync s")
       (auto simp: writeSettingsFileSync_def fs_writeFile_sync split: option.splits)
  finally show ?thesis .
qed

lemma saveSettings_sync:
  "safe fn \<Longrightarrow> saveSettings cr cfg obj fn s = lift0 fn (saveSettingsSync cr cfg obj s)"
  by (cases "prepareSettingsData cr cfg obj")
     (simp_all add: saveSettings_def saveSettingsSync_def writeSettingsFile_sync)

lemma ensureSettingsFile_sync:
  assumes "safe fn"
  shows "ensureSettingsFile cr cfg fn s = lift0 fn (ensureSettingsFileSync cr cfg s)"
proof (cases "file_stat s")
  case None
  then show ?thesis
    using assms
    by (simp add: ensureSettingsFile_def ensureSettingsFileSync_def fs_stat_file_def
        do_stat_file_def io_callback_safe)
next
  case (Some e)
  then show ?thesis
    using assms
    by (simp add: ensureSettingsFile_def ensureSettingsFileSync_def fs_stat_file_def
        do_stat_file_def io_callback_safe saveSettings_sync io_callback_lift0)
qed

lemma readSettingsFile_sync:
  assumes "safe fn"
  shows "readSettingsFile cr cfg fn s = lift1 fn (readSettingsFileSync cr cfg s)"
proof (cases "do_read s")
  case (Pair r s1)
  show ?thesis
  proof (cases r)
    case (Inl e)
    then show ?thesis
      using assms Pair
      by (simp add: readSettingsFile_def readSettingsFileSync_def fs_readFile_def
          io_callback_safe)
  next
    case (Inr data)
    show ?thesis
    proof (cases "reconstructSettingsData cr cfg data")
      case (Inl e)
      then show ?thesis
        using assms Pair Inr
        by (simp add: readSettingsFile_def readSettingsFileSync_def fs_readFile_def
            io_callback_safe)
    next
      case (Inr obj)
      then show ?thesis
        using assms Pair \<open>r = Inr data\<close>
        by (simp add: readSettingsFile_def readSettingsFileSync_def fs_readFile_def
            io_callback_safe try_catch_safe)
    qed
  qed
qed

lemma safe_load_cont:
  "safe fn \<Longrightarrow>
   safe (\<lambda>err x s1.
           case err of
             Some e \<Rightarrow> fn (Some e) JUndefined s1
           | None \<Rightarrow> readSettingsFile cr cfg fn s1)"
  by (auto simp: safe_def readSettingsFile_def fs_readFile_def io_callback_not_Throws
      split: option.splits)

lemma loadSettings_sync:
  assumes "safe fn"
  shows "loadSettings cr cfg fn s = lift1 fn (loadSettingsSync cr cfg s)"
proof -
  let ?k = "\<lambda>err x s1.
              case err of
                Some e \<Rightarrow> fn (Some e) JUndefined s1
              | None \<Rightarrow> readSettingsFile cr cfg fn s1"
  have "loadSettings cr cfg fn s = lift0 ?k (ensureSettingsFileSync cr cfg s)"
    unfolding loadSettings_def
    by (rule ensureSettingsFile_sync [OF safe_load_cont [OF assms]])
  also have "\<dots> = lift1 fn (loadSettingsSync cr cfg s)"
    using assms
    by (cases "ensureSettingsFileSync cr cfg s")
       (auto simp: loadSettingsSync_def readSettingsFile_sync split: option.splits)
  finally show ?thesis .
qed

text \<open>The private methods, called with a function as callback.\<close>

lemma safe_get_cont:
  "safe (\<lambda>err obj s1.
           case err of
             Some e \<Rightarrow> callback JFun (Some e) JUndefined s1
           | None \<Rightarrow>
               if truthy keyPath
               then callback JFun None (keyPathHelpers_getValueAtKeyPath obj (the_string keyPath)) s1
               else callback JFun None obj s1)"
  by (auto simp: safe_def callback_def split: option.splits)

lemma getValueAtKeyPath_sync:
  "getValueAtKeyPath cr cfg keyPath JFun s
     = lift1 (callback JFun) (getValueAtKeyPathSync cr cfg keyPath s)"
  unfolding getValueAtKeyPath_def
  by (cases "loadSettingsSync cr cfg s" rule: lift1.cases [of "(callback JFun, x)" for x])
     (simp_all add: loadSettings_sync [OF safe_get_cont] getValueAtKeyPathSync_def)

lemma safe_has_cont:
  "safe (\<lambda>err obj s1.
           case err of
             Some e \<Rightarrow> callback JFun (Some e) JUndefined s1
           | None \<Rightarrow>
               callback JFun None
                 (JBool (keyPathHelpers_hasKeyPath obj (the_string keyPath))) s1)"
  by (auto simp: safe_def callback_def split: option.splits)

lemma hasKeyPath_sync:
  "hasKeyPath cr cfg keyPath JFun s
     = lift1 (callback JFun) (hasKeyPathSync cr cfg keyPath s)"
  unfolding hasKeyPath_def
  by (cases "loadSettingsSync cr cfg s" rule: lift1.cases [of "(callback JFun, x)" for x])
     (simp_all add: loadSettings_sync [OF safe_has_cont] hasKeyPathSync_def)

lemma lift0_not_Throws: "safe fn \<Longrightarrow> fst (lift0 fn r) \<noteq> Throws e"
  by (cases r) (simp add: safe_def)

lemma safe_save_cont:
  "safe (\<lambda>err obj s1.
           case err of
             Some e \<Rightarrow> callback JFun (Some e) JUndefined s1
           | None \<Rightarrow> saveSettings cr cfg (f obj) (callback JFun) s1)"
proof -
  have "\<And>obj s1 e. fst (saveSettings cr cfg (f obj) (callback JFun) s1) \<noteq> Throws e"
    by (simp add: saveSettings_sync [OF safe_callback] lift0_not_Throws [OF safe_callback])
  then show ?thesis by (auto simp: safe_def callback_def split: option.splits)
qed

lemma setValueAtKeyPath_sync:
  "setValueAtKeyPath cr cfg keyPath val JFun s
     = lift0 (callback JFun) (setValueAtKeyPathSync cr cfg keyPath val s)"
proof (cases "truthy keyPath")
  case False
  then show ?thesis
    by (simp add: setValueAtKeyPath_def setValueAtKeyPathSync_def
        saveSettings_sync [OF safe_callback])
next
  case True
  let ?f = "\<lambda>obj. keyPathHelpers_setValueAtKeyPath obj (the_string keyPath) val"
  show ?thesis
    using True
    by (cases "loadSettingsSync cr cfg s" rule: lift1.cases [of "(callback JFun, x)" for x])
       (simp_all add: setValueAtKeyPath_def setValueAtKeyPathSync_def
          loadSettings_sync [OF safe_save_cont [of cr cfg ?f]]
          saveSettings_sync [OF safe_callback])
qed

lemma deleteValueAtKeyPath_sync:
  "deleteValueAtKeyPath cr cfg keyPath JFun s
     = lift0 (callback JFun) (deleteValueAtKeyPathSync cr cfg keyPath s)"
proof -
  let ?f = "\<lambda>obj. keyPathHelpers_deleteValueAtKeyPath obj (the_string keyPath)"
  show ?thesis
    by (cases "loadSettingsSync cr cfg s" rule: lift1.cases [of "(callback JFun, x)" for x])
       (simp_all add: deleteValueAtKeyPath_def deleteValueAtKeyPathSync_def
          loadSettings_sync [OF safe_save_cont [of cr cfg ?f]]
          saveSettings_sync [OF safe_callback])
qed

lemma same_result_lift1: "same_result (lift1 (callback JFun) r) r"
  by (cases r rule: lift1.cases [of "(callback JFun, x)" for x]) (simp_all add: callback_def)

lemma same_result_lift0: "same_result (lift0 (callback JFun) r) (returns_undefined r)"
  by (cases r rule: returns_undefined.cases) (simp_all add: callback_def)

section \<open>Calls without a usable key path\<close>

lemma getValueAtKeyPathSync_falsy:
  "\<not> truthy keyPath \<Longrightarrow> getValueAtKeyPathSync cr cfg keyPath s = loadSettingsSync cr cfg s"
  by (cases "loadSettingsSync cr cfg s" rule: lift1.cases [of "(callback JFun, x)" for x])
     (simp_all add: getValueAtKeyPathSync_def)

lemma settings_getSync_whole:
  assumes "arg args 0 = JStr [] \<or> \<not> spec_valid_key_path (arg args 0)"
  shows "settings_getSync cr cfg args s = loadSettingsSync cr cfg s"
proof (cases "spec_valid_key_path (arg args 0)")
  case True
  then have "arg args 0 = JStr []" using assms by simp
  then have "arg (splice_keyPath args) 0 = JStr []"
    by (simp add: splice_keyPath_def)
  then show ?thesis by (simp add: settings_getSync_def getValueAtKeyPathSync_falsy)
next
  case False
  then show ?thesis
    by (simp add: settings_getSync_def splice_keyPath_invalid getValueAtKeyPathSync_falsy)
qed

lemma settings_get_whole:
  assumes "(arg args 0 = JStr [] \<and> arg args 1 = JFun) \<or> arg args 0 = JFun"
  shows "settings_get cr cfg args s = lift1 (callback JFun) (loadSettingsSync cr cfg s)"
proof -
  have "\<exists>k. \<not> truthy k \<and> arg (splice_keyPath args) 0 = k \<and> arg (splice_keyPath args) 1 = JFun"
    using assms by (cases args) (auto simp: splice_keyPath_def)
  then show ?thesis
    by (auto simp: settings_get_def getValueAtKeyPath_sync getValueAtKeyPathSync_falsy)
qed

lemma settings_setSync_whole:
  "\<not> spec_valid_key_path (arg args 0) \<Longrightarrow>
   settings_setSync cr cfg args s = returns_undefined (saveSettingsSync cr cfg (arg args 0) s)"
  by (simp add: settings_setSync_def splice_keyPath_invalid setValueAtKeyPathSync_def)

lemma settings_setSync_empty:
  "settings_setSync cr cfg (JStr [] # v # rest) s
     = returns_undefined (saveSettingsSync cr cfg v s)"
  by (simp add: settings_setSync_def splice_keyPath_def setValueAtKeyPathSync_def)

lemma settings_set_whole:
  "\<not> spec_valid_key_path (arg args 0) \<Longrightarrow>
   settings_set cr cfg args s = saveSettings cr cfg (arg args 0) (callback (arg args 1)) s"
  by (simp add: settings_set_def splice_keyPath_invalid setValueAtKeyPath_def)

lemma settings_set_empty:
  "settings_set cr cfg (JStr [] # v # fn # rest) s = saveSettings cr cfg v (callback fn) s"
  by (simp add: settings_set_def splice_keyPath_def setValueAtKeyPath_def)

text \<open>
  C2, as the code has it. Called with a first argument that is no key path (or with no
  argument), \<^verbatim>\<open>has\<close>, \<^verbatim>\<open>hasSync\<close>, \<^verbatim>\<open>delete\<close> and \<^verbatim>\<open>deleteSync\<close> throw the
  invalid-key-path error at once: no I/O call is made and the file system is as it
  was. \<^verbatim>\<open>set\<close> and \<^verbatim>\<open>setSync\<close> do not throw: they take that first argument as
  the whole document and save it.
\<close>

theorem C2_invalid_key_path_raises:
  "\<not> spec_valid_key_path (arg args 0) \<longrightarrow>
     settings_has cr cfg args s = (Throws invalid_key_path, s)
     \<and> settings_hasSync cr cfg args s = (Inl invalid_key_path, s)
     \<and> settings_delete cr cfg args s = (Throws invalid_key_path, s)
     \<and> settings_deleteSync cr cfg args s = (Inl invalid_key_path, s)
     \<and> settings_setSync cr cfg args s
         = returns_undefined (saveSettingsSync cr cfg (arg args 0) s)
     \<and> settings_set cr cfg args s
         = saveSettings cr cfg (arg args 0) (callback (arg args 1)) s"
proof -
  have a: "\<not> spec_valid_key_path (arg args 0) \<Longrightarrow>
      settings_has cr cfg args s = (Throws invalid_key_path, s)"
    by (simp add: settings_has_def truthy_isKeyPath_valid)
  have b: "\<not> spec_valid_key_path (arg args 0) \<Longrightarrow>
      settings_hasSync cr cfg args s = (Inl invalid_key_path, s)"
    by (simp add: settings_hasSync_def truthy_isKeyPath_valid)
  have c: "\<not> spec_valid_key_path (arg args 0) \<Longrightarrow>
      settings_delete cr cfg args s = (Throws invalid_key_path, s)"
    by (simp add: settings_delete_def truthy_isKeyPath_valid)
  have d: "\<not> spec_valid_key_path (arg args 0) \<Longrightarrow>
      settings_deleteSync cr cfg args s = (Inl invalid_key_path, s)"
    by (simp add: settings_deleteSync_def truthy_isKeyPath_valid)
  show ?thesis
    using a b c d settings_setSync_whole [of args cr cfg s] settings_set_whole [of args cr cfg s]
    by blast
qed

theorem C2_witness:
  "\<not> spec_valid_key_path (arg [JNum 42, JFun] 0)
   \<and> settings_has test_crypto defaults [JNum 42, JFun] fresh_store
       = (Throws (TypeError ''A valid key path must be provided''), fresh_store)
   \<and> settings_deleteSync test_crypto defaults [JNum 42, JFun] fresh_store
       = (Inl (TypeError ''A valid key path must be provided''), fresh_store)
   \<and> trace (snd (settings_delete test_crypto defaults [JNum 42, JFun] fresh_store)) = []"
proof -
  have h: "\<not> spec_valid_key_path (arg [JNum 42, JFun] 0)" by simp
  show ?thesis
    using h C2_invalid_key_path_raises [of "[JNum 42, JFun]" test_crypto defaults fresh_store]
    by (simp add: invalid_key_path_def fresh_store_def)
qed

text \<open>
  C2 as stated fails for \<^verbatim>\<open>set\<close>: \<^verbatim>\<open>setSync(42)\<close> on a fresh store returns without an
  error, creates the directory and writes \<^verbatim>\<open>42\<close> to the file.
\<close>

theorem C2_counterexample:
  "settings_setSync test_crypto defaults [JNum 42] fresh_store
     = (Inr JUndefined,
        fresh_store\<lparr>dir_stat := None, file_stat := None, file_data := ''42'',
          trace := [StatDir, Mkdirp, WriteFile True ''42'']\<rparr>)"
  by code_simp

text \<open>
  C10, as the code has it. \<^verbatim>\<open>getSync\<close> with the empty string or with a first argument
  that is no key path (or with none) returns what loading returns, the entire
  document. \<^verbatim>\<open>get\<close> hands the entire document to its callback when it is called with
  the empty string and the callback, or with the callback as first argument.
  \<^verbatim>\<open>setSync\<close> and \<^verbatim>\<open>set\<close> save their second argument as the entire document when
  the first is the empty string, and their first argument when it is no key path
  (\<^verbatim>\<open>set\<close> then takes the next argument as callback); after a successful save the
  file holds the encoding of that document.
\<close>

theorem C10_no_key_path_means_whole_document:
  "((arg args 0 = JStr [] \<or> \<not> spec_valid_key_path (arg args 0)) \<longrightarrow>
      settings_getSync cr cfg args s = loadSettingsSync cr cfg s)
   \<and> (((arg args 0 = JStr [] \<and> arg args 1 = JFun) \<or> arg args 0 = JFun) \<longrightarrow>
        settings_get cr cfg args s = lift1 (callback JFun) (loadSettingsSync cr cfg s))
   \<and> settings_setSync cr cfg (JStr [] # v # rest) s
        = returns_undefined (saveSettingsSync cr cfg v s)
   \<and> settings_set cr cfg (JStr [] # v # JFun # rest) s
        = lift0 (callback JFun) (saveSettingsSync cr cfg v s)
   \<and> (\<not> spec_valid_key_path x \<longrightarrow>
        settings_setSync cr cfg (x # rest) s
          = returns_undefined (saveSettingsSync cr cfg x s)
        \<and> settings_set cr cfg (x # JFun # rest) s
          = lift0 (callback JFun) (saveSettingsSync cr cfg x s))
   \<and> (saveSettingsSync cr cfg doc s = (None, s') \<longrightarrow>
        (\<exists>data. prepareSettingsData cr cfg doc = Inr data
           \<and> file_stat s' = None \<and> file_data s' = bytes_of s data))"
proof -
  have a: "arg args 0 = JStr [] \<or> \<not> spec_valid_key_path (arg args 0) \<Longrightarrow>
      settings_getSync cr cfg args s = loadSettingsSync cr cfg s"
    by (rule settings_getSync_whole)
  have b: "(arg args 0 = JStr [] \<and> arg args 1 = JFun) \<or> arg args 0 = JFun \<Longrightarrow>
      settings_get cr cfg args s = lift1 (callback JFun) (loadSettingsSync cr cfg s)"
    by (rule settings_get_whole)
  have c: "settings_setSync cr cfg (JStr [] # v # rest) s
      = returns_undefined (saveSettingsSync cr cfg v s)"
    by (rule settings_setSync_empty)
  have d: "settings_set cr cfg (JStr [] # v # JFun # rest) s
      = lift0 (callback JFun) (saveSettingsSync cr cfg v s)"
    by (simp add: settings_set_empty saveSettings_sync [OF safe_callback])
  have e: "\<not> spec_valid_key_path x \<Longrightarrow>
      settings_setSync cr cfg (x # rest) s = returns_undefined (saveSettingsSync cr cfg x s)"
    using settings_setSync_whole [of "x # rest" cr cfg s] by simp
  have f: "\<not> spec_valid_key_path x \<Longrightarrow>
      settings_set cr cfg (x # JFun # rest) s = lift0 (callback JFun) (saveSettingsSync cr cfg x s)"
    using settings_set_whole [of "x # JFun # rest" cr cfg s]
    by (simp add: saveSettings_sync [OF safe_callback])
  have g: "saveSettingsSync cr cfg doc s = (None, s') \<Longrightarrow>
      \<exists>data. prepareSettingsData cr cfg doc = Inr data
         \<and> file_stat s' = None \<and> file_data s' = bytes_of s data"
    using saveSettingsSync_ok [of cr cfg doc s s'] by blast
  show ?thesis using a b c d e f g by blast
qed

theorem C10_witness:
  "(arg [JStr []] 0 = JStr [] \<or> \<not> spec_valid_key_path (arg [JStr []] 0))
   \<and> settings_getSync test_crypto defaults [JStr []] (store_with ''[1,2]'')
       = (Inr (JArr [JNum 1, JNum 2]), log ReadFile (log StatFile (store_with ''[1,2]'')))
   \<and> \<not> spec_valid_key_path (JNum 42)
   \<and> saveSettingsSync test_crypto defaults (JNum 42) fresh_store
       = (None, fresh_store\<lparr>dir_stat := None, file_stat := None, file_data := ''42'',
            trace := [StatDir, Mkdirp, WriteFile True ''42'']\<rparr>)
   \<and> settings_set test_crypto defaults [JNum 42, JFun] fresh_store
       = (Called None JUndefined,
          fresh_store\<lparr>dir_stat := None, file_stat := None, file_data := ''42'',
            trace := [StatDir, Mkdirp, WriteFile True ''42'']\<rparr>)"
proof -
  have h1: "arg [JStr []] 0 = JStr [] \<or> \<not> spec_valid_key_path (arg [JStr []] 0)" by simp
  have h2: "\<not> spec_valid_key_path (JNum 42)" by simp
  have l: "loadSettingsSync test_crypto defaults (store_with ''[1,2]'')
      = (Inr (JArr [JNum 1, JNum 2]), log ReadFile (log StatFile (store_with ''[1,2]'')))"
    by code_simp
  have sv: "saveSettingsSync test_crypto defaults (JNum 42) fresh_store
      = (None, fresh_store\<lparr>dir_stat := None, file_stat := None, file_data := ''42'',
           trace := [StatDir, Mkdirp, WriteFile True ''42'']\<rparr>)"
    by code_simp
  have g: "settings_getSync test_crypto defaults [JStr []] (store_with ''[1,2]'')
      = (Inr (JArr [JNum 1, JNum 2]), log ReadFile (log StatFile (store_with ''[1,2]'')))"
    using C10_no_key_path_means_whole_document
            [of "[JStr []]" test_crypto defaults "store_with ''[1,2]''"] h1 l
    by simp
  have st: "settings_set test_crypto defaults [JNum 42, JFun] fresh_store
      = (Called None JUndefined,
         fresh_store\<lparr>dir_stat := None, file_stat := None, file_data := ''42'',
           trace := [StatDir, Mkdirp, WriteFile True ''42'']\<rparr>)"
    using C10_no_key_path_means_whole_document
            [of "[]" test_crypto defaults fresh_store JNull "[]" "JNum 42"] h2 sv
    by (simp add: callback_def)
  show ?thesis using h1 h2 g sv st by blast
qed

text \<open>
  C10 as stated fails for the non-blocking \<^verbatim>\<open>get\<close>: \<^verbatim>\<open>get(42, callback)\<close> takes
  \<^verbatim>\<open>42\<close> as its callback; after the document is loaded, calling it raises a
  \<^verbatim>\<open>TypeError\<close> that nobody catches, and the callback never gets the document.
\<close>

theorem C10_counterexample:
  "settings_get test_crypto defaults [JNum 42, JFun] (store_with ''{}'')
     = (Uncaught (TypeError ''fn is not a function''),
        (store_with ''{}'')\<lparr>trace := [StatFile, ReadFile]\<rparr>)"
  by code_simp

section \<open>The two calling conventions\<close>

lemma settings_get_sync:
  "spec_valid_key_path kp \<Longrightarrow>
   settings_get cr cfg [kp, JFun] s = lift1 (callback JFun) (settings_getSync cr cfg [kp] s)"
  by (simp add: settings_get_def settings_getSync_def splice_keyPath_valid
      getValueAtKeyPath_sync)

lemma settings_get_sync_none:
  "settings_get cr cfg [JFun] s = lift1 (callback JFun) (settings_getSync cr cfg [] s)"
  by (simp add: settings_get_def settings_getSync_def splice_keyPath_def
      getValueAtKeyPath_sync)

lemma settings_has_sync:
  "spec_valid_key_path kp \<Longrightarrow>
   settings_has cr cfg [kp, JFun] s = lift1 (callback JFun) (settings_hasSync cr cfg [kp] s)"
  by (simp add: settings_has_def settings_hasSync_def truthy_isKeyPath_valid
      flattenKeyPath_valid hasKeyPath_sync)

lemma settings_set_sync:
  "spec_valid_key_path kp \<Longrightarrow>
   settings_set cr cfg [kp, v, JFun] s
     = lift0 (callback JFun) (setValueAtKeyPathSync cr cfg (JStr (spec_normalize kp)) v s)
   \<and> settings_setSync cr cfg [kp, v] s
     = returns_undefined (setValueAtKeyPathSync cr cfg (JStr (spec_normalize kp)) v s)"
  by (simp add: settings_set_def settings_setSync_def splice_keyPath_valid
      setValueAtKeyPath_sync)

lemma settings_delete_sync:
  "spec_valid_key_path kp \<Longrightarrow>
   settings_delete cr cfg [kp, JFun] s
     = lift0 (callback JFun) (deleteValueAtKeyPathSync cr cfg (JStr (spec_normalize kp)) s)
   \<and> settings_deleteSync cr cfg [kp] s
     = returns_undefined (deleteValueAtKeyPathSync cr cfg (JStr (spec_normalize kp)) s)"
  by (simp add: settings_delete_def settings_deleteSync_def truthy_isKeyPath_valid
      flattenKeyPath_valid deleteValueAtKeyPath_sync)

text \<open>
  C3, as the code has it. Called the documented way (the arguments of the blocking
  call, then the callback; the first argument a valid key path, or left out for
  \<^verbatim>\<open>get\<close>, or a document that is no key path for \<^verbatim>\<open>set\<close>), the blocking and the
  non-blocking variant of \<^verbatim>\<open>get\<close>, \<^verbatim>\<open>has\<close>, \<^verbatim>\<open>set\<close> and \<^verbatim>\<open>delete\<close> have the same
  result or the same error, and leave the same file system; \<^verbatim>\<open>has\<close> and \<^verbatim>\<open>delete\<close>
  agree for every first argument, valid or not.
\<close>

theorem C3_conventions_agree:
  "(spec_valid_key_path kp \<longrightarrow>
      same_result (settings_get cr cfg [kp, JFun] s) (settings_getSync cr cfg [kp] s)
      \<and> same_result (settings_set cr cfg [kp, v, JFun] s) (settings_setSync cr cfg [kp, v] s))
   \<and> same_result (settings_get cr cfg [JFun] s) (settings_getSync cr cfg [] s)
   \<and> same_result (settings_has cr cfg [x, JFun] s) (settings_hasSync cr cfg [x] s)
   \<and> same_result (settings_delete cr cfg [x, JFun] s) (settings_deleteSync cr cfg [x] s)
   \<and> (\<not> spec_valid_key_path doc \<longrightarrow>
        same_result (settings_set cr cfg [doc, JFun] s) (settings_setSync cr cfg [doc] s))"
proof -
  have a: "spec_valid_key_path kp \<Longrightarrow>
      same_result (settings_get cr cfg [kp, JFun] s) (settings_getSync cr cfg [kp] s)"
    by (simp add: settings_get_sync same_result_lift1)
  have b: "spec_valid_key_path kp \<Longrightarrow>
      same_result (settings_set cr cfg [kp, v, JFun] s) (settings_setSync cr cfg [kp, v] s)"
    by (simp add: settings_set_sync same_result_lift0)
  have c: "same_result (settings_get cr cfg [JFun] s) (settings_getSync cr cfg [] s)"
    by (simp add: settings_get_sync_none same_result_lift1)
  have d: "same_result (settings_has cr cfg [x, JFun] s) (settings_hasSync cr cfg [x] s)"
  proof (cases "spec_valid_key_path x")
    case True
    then show ?thesis by (simp add: settings_has_sync same_result_lift1)
  next
    case False
    then show ?thesis
      by (simp add: settings_has_def settings_hasSync_def truthy_isKeyPath_valid)
  qed
  have e: "same_result (settings_delete cr cfg [x, JFun] s) (settings_deleteSync cr cfg [x] s)"
  proof (cases "spec_valid_key_path x")
    case True
    then show ?thesis by (simp add: settings_delete_sync same_result_lift0)
  next
    case False
    then show ?thesis
      by (simp add: settings_delete_def settings_deleteSync_def truthy_isKeyPath_valid)
  qed
  have f: "\<not> spec_valid_key_path doc \<Longrightarrow>
      same_result (settings_set cr cfg [doc, JFun] s) (settings_setSync cr cfg [doc] s)"
    using settings_set_whole [of "[doc, JFun]" cr cfg s] settings_setSync_whole [of "[doc]" cr cfg s]
    by (simp add: saveSettings_sync [OF safe_callback] same_result_lift0)
  show ?thesis using a b c d e f by blast
qed

theorem C3_witness:
  "spec_valid_key_path (JStr ''name.last'')
   \<and> same_result
       (settings_set test_crypto defaults [JStr ''name.last'', JStr ''Caesar'', JFun] fresh_store)
       (settings_setSync test_crypto defaults [JStr ''name.last'', JStr ''Caesar''] fresh_store)
   \<and> same_result
       (settings_get test_crypto defaults [JStr ''name.last'', JFun] (store_with ''garbage''))
       (settings_getSync test_crypto defaults [JStr ''name.last''] (store_with ''garbage''))
   \<and> settings_get test_crypto defaults [JStr ''name.last'', JFun] (store_with ''garbage'')
       = (Called (Some (SyntaxError ''Unexpected token in JSON'')) JUndefined,
          (store_with ''garbage'')\<lparr>trace := [StatFile, ReadFile]\<rparr>)
   \<and> \<not> spec_valid_key_path (JObj [(''foo'', JStr ''bar'')])
   \<and> same_result
       (settings_set test_crypto defaults [JObj [(''foo'', JStr ''bar'')], JFun] fresh_store)
       (settings_setSync test_crypto defaults [JObj [(''foo'', JStr ''bar'')]] fresh_store)"
proof -
  have h1: "spec_valid_key_path (JStr ''name.last'')" by simp
  have h2: "\<not> spec_valid_key_path (JObj [(''foo'', JStr ''bar'')])" by simp
  have g: "settings_get test_crypto defaults [JStr ''name.last'', JFun] (store_with ''garbage'')
       = (Called (Some (SyntaxError ''Unexpected token in JSON'')) JUndefined,
          (store_with ''garbage'')\<lparr>trace := [StatFile, ReadFile]\<rparr>)"
    by code_simp
  show ?thesis
    using h1 h2 g
      C3_conventions_agree [of "JStr ''name.last''" test_crypto defaults fresh_store
        "JStr ''Caesar''" JNull "JObj [(''foo'', JStr ''bar'')]"]
      C3_conventions_agree [of "JStr ''name.last''" test_crypto defaults "store_with ''garbage''"
        "JStr ''Caesar''" JNull "JObj [(''foo'', JStr ''bar'')]"]
    by blast
qed

text \<open>
  C3 as stated fails when the first argument is no key path and no callback:
  \<^verbatim>\<open>getSync(null)\<close> returns the whole document, while \<^verbatim>\<open>get(null, callback)\<close> takes
  \<^verbatim>\<open>null\<close> as its callback and ends in an uncaught \<^verbatim>\<open>TypeError\<close>.
\<close>

theorem C3_counterexample:
  "fst (settings_getSync test_crypto defaults [JNull] (store_with ''{}'')) = Inr (JObj [])
   \<and> fst (settings_get test_crypto defaults [JNull, JFun] (store_with ''{}''))
       = Uncaught (TypeError ''fn is not a function'')
   \<and> \<not> same_result (settings_get test_crypto defaults [JNull, JFun] (store_with ''{}''))
         (settings_getSync test_crypto defaults [JNull] (store_with ''{}''))"
  by code_simp

section \<open>A document that cannot be decoded\<close>

text \<open>
  C8. When the file is there and its bytes cannot be decoded (invalid JSON, or a
  failing decipher), \<^verbatim>\<open>set\<close> with a key path that is not empty and \<^verbatim>\<open>delete\<close>, in
  both conventions, signal the decoding error after one \<^verbatim>\<open>stat\<close> and one read: no
  write is made, and the bytes of the file are as they were.
\<close>

theorem C8_decode_failure_writes_nothing:
  assumes "file_stat s = None" and "read_error s = None"
    and "reconstructSettingsData cr cfg (file_data s) = Inl e"
    and "spec_valid_key_path kp"
  shows "(spec_normalize kp \<noteq> [] \<longrightarrow>
            settings_setSync cr cfg [kp, v] s = (Inl e, log ReadFile (log StatFile s))
            \<and> settings_set cr cfg [kp, v, JFun] s
                = (Called (Some e) JUndefined, log ReadFile (log StatFile s)))
         \<and> settings_deleteSync cr cfg [kp] s = (Inl e, log ReadFile (log StatFile s))
         \<and> settings_delete cr cfg [kp, JFun] s
             = (Called (Some e) JUndefined, log ReadFile (log StatFile s))
         \<and> file_data (log ReadFile (log StatFile s)) = file_data s
         \<and> file_stat (log ReadFile (log StatFile s)) = None
         \<and> trace (log ReadFile (log StatFile s)) = trace s @ [StatFile, ReadFile]
         \<and> first_write [StatFile, ReadFile] = None"
proof -
  let ?s' = "log ReadFile (log StatFile s)"
  have l: "loadSettingsSync cr cfg s = (Inl e, ?s')"
    using assms(1-3) by (simp add: loadSettingsSync_present)
  have st: "spec_normalize kp \<noteq> [] \<Longrightarrow>
      setValueAtKeyPathSync cr cfg (JStr (spec_normalize kp)) v s = (Some e, ?s')"
    using l by (simp add: setValueAtKeyPathSync_def)
  have dl: "deleteValueAtKeyPathSync cr cfg (JStr (spec_normalize kp)) s = (Some e, ?s')"
    using l by (simp add: deleteValueAtKeyPathSync_def)
  have a: "spec_normalize kp \<noteq> [] \<Longrightarrow> settings_setSync cr cfg [kp, v] s = (Inl e, ?s')"
    using settings_set_sync [OF assms(4), of cr cfg v s] st by simp
  have b: "spec_normalize kp \<noteq> [] \<Longrightarrow>
      settings_set cr cfg [kp, v, JFun] s = (Called (Some e) JUndefined, ?s')"
    using settings_set_sync [OF assms(4), of cr cfg v s] st by (simp add: callback_def)
  have c: "settings_deleteSync cr cfg [kp] s = (Inl e, ?s')"
    using settings_delete_sync [OF assms(4), of cr cfg s] dl by simp
  have d: "settings_delete cr cfg [kp, JFun] s = (Called (Some e) JUndefined, ?s')"
    using settings_delete_sync [OF assms(4), of cr cfg s] dl by (simp add: callback_def)
  have f: "file_data ?s' = file_data s" "file_stat ?s' = None"
      "trace ?s' = trace s @ [StatFile, ReadFile]"
    using assms(1) by (simp_all add: log_def)
  show ?thesis using a b c d f by simp
qed

theorem C8_witness:
  "file_stat (store_with ''{oops'') = None
   \<and> read_error (store_with ''{oops'') = None
   \<and> reconstructSettingsData test_crypto defaults (file_data (store_with ''{oops''))
       = Inl (SyntaxError ''Unexpected token in JSON'')
   \<and> spec_valid_key_path (JStr ''a.b'')
   \<and> spec_normalize (JStr ''a.b'') \<noteq> []
   \<and> settings_setSync test_crypto defaults [JStr ''a.b'', JNum 1] (store_with ''{oops'')
       = (Inl (SyntaxError ''Unexpected token in JSON''),
          (store_with ''{oops'')\<lparr>trace := [StatFile, ReadFile]\<rparr>)
   \<and> settings_delete test_crypto defaults [JStr ''a.b'', JFun] (store_with ''{oops'')
       = (Called (Some (SyntaxError ''Unexpected token in JSON'')) JUndefined,
          (store_with ''{oops'')\<lparr>trace := [StatFile, ReadFile]\<rparr>)"
proof -
  let ?s = "store_with ''{oops''"
  have h1: "file_stat ?s = None" by (simp add: store_with_def)
  have h2: "read_error ?s = None" by (simp add: store_with_def fresh_store_def)
  have h3: "reconstructSettingsData test_crypto defaults (file_data ?s)
      = Inl (SyntaxError ''Unexpected token in JSON'')"
    by code_simp
  have h4: "spec_valid_key_path (JStr ''a.b'')" by simp
  have h5: "spec_normalize (JStr ''a.b'') \<noteq> []" by simp
  have st: "log ReadFile (log StatFile ?s) = ?s\<lparr>trace := [StatFile, ReadFile]\<rparr>"
    by (simp add: log_def store_with_def fresh_store_def)
  show ?thesis
    using h1 h2 h3 h4 h5
      C8_decode_failure_writes_nothing [OF h1 h2 h3 h4, of "JNum 1"]
    by (simp add: st)
qed

section \<open>A callback that is not called\<close>

lemma uncalled_io_callback: "uncalled r \<Longrightarrow> uncalled (io_callback r)"
  by (cases r rule: io_callback.cases) (simp_all add: uncalled_def)

lemma uncalled_try_catch:
  "uncalled r \<Longrightarrow> (\<And>e s. uncalled (h e s)) \<Longrightarrow> uncalled (try_catch r h)"
  by (cases "(r, h)" rule: try_catch.cases) (simp_all add: uncalled_def)

lemma never_calls_callback: "fn \<noteq> JFun \<Longrightarrow> never_calls (callback fn)"
  by (simp add: never_calls_def uncalled_def callback_def)

lemma uncalled_case_option:
  "(\<And>e. err = Some e \<Longrightarrow> uncalled (f e)) \<Longrightarrow> (err = None \<Longrightarrow> uncalled g) \<Longrightarrow>
   uncalled (case err of Some e \<Rightarrow> f e | None \<Rightarrow> g)"
  by (cases err) simp_all

lemma uncalled_mkdirp: "never_calls fn \<Longrightarrow> uncalled (mkdirp fn s)"
  by (cases "do_mkdirp s") (simp add: mkdirp_def uncalled_io_callback never_calls_def)

lemma uncalled_fs_writeFile: "never_calls fn \<Longrightarrow> uncalled (fs_writeFile atomic data fn s)"
  by (cases "do_write atomic data s")
     (simp add: fs_writeFile_def uncalled_io_callback never_calls_def)

lemma uncalled_ensureSettingsDir: "never_calls fn \<Longrightarrow> uncalled (ensureSettingsDir fn s)"
  unfolding ensureSettingsDir_def fs_stat_dir_def do_stat_dir_def
  by (auto intro!: uncalled_io_callback uncalled_case_option uncalled_mkdirp
      simp: never_calls_def)

lemma uncalled_writeSettingsFile:
  "never_calls fn \<Longrightarrow> uncalled (writeSettingsFile cfg data fn s)"
  unfolding writeSettingsFile_def
  by (rule uncalled_ensureSettingsDir)
     (auto simp: never_calls_def uncalled_fs_writeFile split: option.splits)

lemma uncalled_saveSettings: "never_calls fn \<Longrightarrow> uncalled (saveSettings cr cfg obj fn s)"
  by (cases "prepareSettingsData cr cfg obj")
     (simp_all add: saveSettings_def uncalled_writeSettingsFile never_calls_def)

lemma uncalled_ensureSettingsFile:
  "never_calls fn \<Longrightarrow> uncalled (ensureSettingsFile cr cfg fn s)"
  unfolding ensureSettingsFile_def fs_stat_file_def do_stat_file_def
  by (auto intro!: uncalled_io_callback uncalled_case_option uncalled_saveSettings
      simp: never_calls_def)

lemma uncalled_readSettingsFile:
  "never_calls fn \<Longrightarrow> uncalled (readSettingsFile cr cfg fn s)"
proof -
  assume n: "never_calls fn"
  have t: "\<And>data s1. uncalled
      (try_catch
        (case reconstructSettingsData cr cfg data of
           Inl e \<Rightarrow> (Throws e, s1)
         | Inr obj \<Rightarrow> fn None obj s1)
        (\<lambda>e s2. fn (Some e) JUndefined s2))"
  proof -
    fix data s1
    have "uncalled (case reconstructSettingsData cr cfg data of
           Inl e \<Rightarrow> (Throws e, s1)
         | Inr obj \<Rightarrow> fn None obj s1)"
      using n by (cases "reconstructSettingsData cr cfg data")
                 (simp_all add: uncalled_def never_calls_def)
    then show "uncalled
      (try_catch
        (case reconstructSettingsData cr cfg data of
           Inl e \<Rightarrow> (Throws e, s1)
         | Inr obj \<Rightarrow> fn None obj s1)
        (\<lambda>e s2. fn (Some e) JUndefined s2))"
      using n by (intro uncalled_try_catch) (simp_all add: never_calls_def)
  qed
  obtain r s1 where r: "do_read s = (r, s1)" by (cases "do_read s")
  show ?thesis
    unfolding readSettingsFile_def fs_readFile_def
    using n t r
    by (cases r) (auto intro!: uncalled_io_callback simp: never_calls_def)
qed

lemma uncalled_loadSettings: "never_calls fn \<Longrightarrow> uncalled (loadSettings cr cfg fn s)"
  unfolding loadSettings_def
  by (rule uncalled_ensureSettingsFile)
     (auto simp: never_calls_def uncalled_readSettingsFile split: option.splits)

lemma uncalled_getValueAtKeyPath:
  "fn \<noteq> JFun \<Longrightarrow> uncalled (getValueAtKeyPath cr cfg keyPath fn s)"
  unfolding getValueAtKeyPath_def
  by (rule uncalled_loadSettings)
     (auto simp: never_calls_def uncalled_def callback_def split: option.splits)

lemma uncalled_hasKeyPath:
  "fn \<noteq> JFun \<Longrightarrow> uncalled (hasKeyPath cr cfg keyPath fn s)"
  unfolding hasKeyPath_def
  by (rule uncalled_loadSettings)
     (auto simp: never_calls_def uncalled_def callback_def split: option.splits)

lemma uncalled_setValueAtKeyPath:
  assumes "fn \<noteq> JFun"
  shows "uncalled (setValueAtKeyPath cr cfg keyPath val fn s)"
proof -
  have n: "never_calls (callback fn)" using assms by (rule never_calls_callback)
  have k: "never_calls
      (\<lambda>err obj s1.
         case err of
           Some e \<Rightarrow> callback fn (Some e) JUndefined s1
         | None \<Rightarrow>
             saveSettings cr cfg
               (keyPathHelpers_setValueAtKeyPath obj (the_string keyPath) val)
               (callback fn) s1)"
    using n uncalled_saveSettings [OF n]
    by (auto simp: never_calls_def split: option.splits)
  show ?thesis
    unfolding setValueAtKeyPath_def
    using uncalled_loadSettings [OF k] uncalled_saveSettings [OF n] by simp
qed

lemma uncalled_deleteValueAtKeyPath:
  assumes "fn \<noteq> JFun"
  shows "uncalled (deleteValueAtKeyPath cr cfg keyPath fn s)"
proof -
  have n: "never_calls (callback fn)" using assms by (rule never_calls_callback)
  have k: "never_calls
      (\<lambda>err obj s1.
         case err of
           Some e \<Rightarrow> callback fn (Some e) JUndefined s1
         | None \<Rightarrow>
             saveSettings cr cfg
               (keyPathHelpers_deleteValueAtKeyPath obj (the_string keyPath))
               (callback fn) s1)"
    using n uncalled_saveSettings [OF n]
    by (auto simp: never_calls_def split: option.splits)
  show ?thesis
    unfolding deleteValueAtKeyPath_def
    using uncalled_loadSettings [OF k] by simp
qed

text \<open>
  A non-blocking call whose callback got a result, and no error: the blocking call
  with the same arguments returns that result and leaves the same file system.
\<close>

lemma lift1_Called:
  "lift1 (callback JFun) r = (Called None v, s') \<Longrightarrow> r = (Inr v, s')"
  by (cases r rule: lift1.cases [of "(callback JFun, x)" for x]) (simp_all add: callback_def)

lemma lift0_Called:
  "lift0 (callback JFun) r = (Called None v, s') \<Longrightarrow> returns_undefined r = (Inr v, s')"
  by (cases r rule: returns_undefined.cases) (simp_all add: callback_def)

lemma run_async_called:
  assumes "run_async op cr cfg args s = (Called None v, s')"
  shows "run_sync op cr cfg args s = (Inr v, s')"
proof (cases op)
  case OpGet
  let ?a = "splice_keyPath args"
  have c: "getValueAtKeyPath cr cfg (arg ?a 0) (arg ?a 1) s = (Called None v, s')"
    using assms unfolding OpGet run_async.simps settings_get_def Let_def .
  have f: "arg ?a 1 = JFun"
    using c uncalled_getValueAtKeyPath [of "arg ?a 1" cr cfg "arg ?a 0" s]
    by (auto simp: uncalled_def)
  have "getValueAtKeyPathSync cr cfg (arg ?a 0) s = (Inr v, s')"
    using c f by (simp add: getValueAtKeyPath_sync lift1_Called)
  then show ?thesis unfolding OpGet run_sync.simps settings_getSync_def Let_def .
next
  case OpHas
  let ?a = "flattenKeyPath (arg args 0) # drop 1 args"
  have t: "truthy (isKeyPath (arg args 0))"
    using assms OpHas by (auto simp: settings_has_def split: if_splits)
  have c: "hasKeyPath cr cfg (arg ?a 0) (arg ?a 1) s = (Called None v, s')"
    using assms t unfolding OpHas run_async.simps settings_has_def Let_def by simp
  have f: "arg ?a 1 = JFun"
    using c uncalled_hasKeyPath [of "arg ?a 1" cr cfg "arg ?a 0" s]
    by (auto simp: uncalled_def)
  have "hasKeyPathSync cr cfg (arg ?a 0) s = (Inr v, s')"
    using c f by (simp add: hasKeyPath_sync lift1_Called)
  then show ?thesis using t unfolding OpHas run_sync.simps settings_hasSync_def Let_def by simp
next
  case OpSet
  let ?a = "splice_keyPath args"
  have c: "setValueAtKeyPath cr cfg (arg ?a 0) (arg ?a 1) (arg ?a 2) s = (Called None v, s')"
    using assms unfolding OpSet run_async.simps settings_set_def Let_def .
  have f: "arg ?a 2 = JFun"
    using c uncalled_setValueAtKeyPath [of "arg ?a 2" cr cfg "arg ?a 0" "arg ?a 1" s]
    by (auto simp: uncalled_def)
  have "returns_undefined (setValueAtKeyPathSync cr cfg (arg ?a 0) (arg ?a 1) s) = (Inr v, s')"
    using c f by (simp add: setValueAtKeyPath_sync lift0_Called)
  then show ?thesis unfolding OpSet run_sync.simps settings_setSync_def Let_def .
next
  case OpDelete
  let ?a = "flattenKeyPath (arg args 0) # drop 1 args"
  have t: "truthy (isKeyPath (arg args 0))"
    using assms OpDelete by (auto simp: settings_delete_def split: if_splits)
  have c: "deleteValueAtKeyPath cr cfg (arg ?a 0) (arg ?a 1) s = (Called None v, s')"
    using assms t unfolding OpDelete run_async.simps settings_delete_def Let_def by simp
  have f: "arg ?a 1 = JFun"
    using c uncalled_deleteValueAtKeyPath [of "arg ?a 1" cr cfg "arg ?a 0" s]
    by (auto simp: uncalled_def)
  have "returns_undefined (deleteValueAtKeyPathSync cr cfg (arg ?a 0) s) = (Inr v, s')"
    using c f by (simp add: deleteValueAtKeyPath_sync lift0_Called)
  then show ?thesis
    using t unfolding OpDelete run_sync.simps settings_deleteSync_def Let_def by simp
qed

section \<open>The file is created on first use\<close>

lemma prepare_json_some:
  "json_value doc \<Longrightarrow> prepareSettingsData cr cfg doc = Inr data \<Longrightarrow> \<exists>b. data = Some b"
proof -
  assume d: "json_value doc" and p: "prepareSettingsData cr cfg doc = Inr data"
  obtain jt where jt: "JSON_stringify doc (if prettify cfg then numSpaces cfg else 0) = Some jt"
    using JSON_stringify_some [OF d] by blast
  show ?thesis
  proof (cases "encryption_on cfg")
    case True
    then show ?thesis using p prepare_encrypted [OF True jt, of cr]
      by (auto split: sum.splits)
  next
    case False
    then show ?thesis using p jt by (auto simp: prepare_plain)
  qed
qed

lemma valid_arg_cons:
  "spec_valid_key_path (arg args 0) \<Longrightarrow> \<exists>kp rest. args = kp # rest \<and> spec_valid_key_path kp"
  by (cases args) simp_all

lemma ensure_missing_ok:
  assumes "file_stat s = Some e" and "is_ENOENT e"
    and "ensureSettingsFileSync cr cfg s = (None, s1)"
  shows "\<exists>bytes evs. prepareSettingsData cr cfg (JObj []) = Inr (Some bytes)
           \<and> file_stat s1 = None \<and> file_data s1 = bytes
           \<and> later s s1 evs \<and> first_write evs = Some bytes"
proof -
  have sv: "saveSettingsSync cr cfg (JObj []) (log StatFile s) = (None, s1)"
    using assms by (simp add: ensureSettingsFileSync_missing)
  obtain data evs where d: "prepareSettingsData cr cfg (JObj []) = Inr data"
      "file_stat s1 = None" "file_data s1 = bytes_of (log StatFile s) data"
      "later (log StatFile s) s1 evs" "first_write evs = Some (bytes_of (log StatFile s) data)"
    using saveSettingsSync_ok [OF sv] by blast
  obtain b where b: "data = Some b" using prepare_json_some [OF _ d(1)] by auto
  have l: "later s s1 (StatFile # evs)"
    using later_trans [OF later_log [of s StatFile] d(4)] by simp
  have "first_write (StatFile # evs) = Some b" using d(5) b by (simp add: bytes_of_def)
  then show ?thesis using d b l by (auto simp: bytes_of_def)
qed

lemma creates_later:
  "creates_empty_first cr cfg s s1 \<Longrightarrow> later s1 s2 evs \<Longrightarrow> creates_empty_first cr cfg s s2"
  unfolding creates_empty_first_def later_def
  by (auto simp: first_write_append)

lemma load_missing_creates:
  assumes "file_stat s = Some e" and "is_ENOENT e"
    and "loadSettingsSync cr cfg s = (Inr obj, s1)"
  shows "creates_empty_first cr cfg s s1"
proof -
  obtain s0 where en: "ensureSettingsFileSync cr cfg s = (None, s0)"
      and r: "readSettingsFileSync cr cfg s0 = (Inr obj, s1)"
    using assms(3)
    by (cases "ensureSettingsFileSync cr cfg s")
       (auto simp: loadSettingsSync_def split: option.splits)
  obtain bytes evs where b: "prepareSettingsData cr cfg (JObj []) = Inr (Some bytes)"
      "later s s0 evs" "first_write evs = Some bytes"
    using ensure_missing_ok [OF assms(1,2) en] by blast
  have "creates_empty_first cr cfg s s0"
    using b by (auto simp: creates_empty_first_def later_def)
  then show ?thesis using creates_later readSettingsFileSync_later [OF r] by blast
qed

lemma getValueAtKeyPathSync_ok:
  "getValueAtKeyPathSync cr cfg k s = (Inr r, s') \<Longrightarrow>
   \<exists>obj. loadSettingsSync cr cfg s = (Inr obj, s')"
  by (cases "loadSettingsSync cr cfg s" rule: lift1.cases [of "(callback JFun, x)" for x])
     (auto simp: getValueAtKeyPathSync_def split: if_splits)

lemma hasKeyPathSync_ok:
  "hasKeyPathSync cr cfg k s = (Inr r, s') \<Longrightarrow>
   \<exists>obj. loadSettingsSync cr cfg s = (Inr obj, s')"
  by (cases "loadSettingsSync cr cfg s" rule: lift1.cases [of "(callback JFun, x)" for x])
     (auto simp: hasKeyPathSync_def)

lemma returns_undefined_ok: "returns_undefined r = (Inr v, s') \<Longrightarrow> r = (None, s')"
  by (cases r rule: returns_undefined.cases) simp_all

lemma setValueAtKeyPathSync_ok:
  assumes "setValueAtKeyPathSync cr cfg k v s = (None, s')" and "truthy k"
  shows "\<exists>obj s1. loadSettingsSync cr cfg s = (Inr obj, s1)
           \<and> saveSettingsSync cr cfg (keyPathHelpers_setValueAtKeyPath obj (the_string k) v) s1
               = (None, s')"
  using assms
  by (cases "loadSettingsSync cr cfg s" rule: lift1.cases [of "(callback JFun, x)" for x])
     (auto simp: setValueAtKeyPathSync_def)

lemma deleteValueAtKeyPathSync_ok:
  assumes "deleteValueAtKeyPathSync cr cfg k s = (None, s')"
  shows "\<exists>obj s1. loadSettingsSync cr cfg s = (Inr obj, s1)
           \<and> saveSettingsSync cr cfg (keyPathHelpers_deleteValueAtKeyPath obj (the_string k)) s1
               = (None, s')"
  using assms
  by (cases "loadSettingsSync cr cfg s" rule: lift1.cases [of "(callback JFun, x)" for x])
     (auto simp: deleteValueAtKeyPathSync_def)

lemma settings_hasSync_valid:
  "spec_valid_key_path (arg args 0) \<Longrightarrow>
   settings_hasSync cr cfg args s
     = hasKeyPathSync cr cfg (JStr (spec_normalize (arg args 0))) s"
  by (simp add: settings_hasSync_def truthy_isKeyPath_valid flattenKeyPath_valid)

lemma settings_deleteSync_valid:
  "spec_valid_key_path (arg args 0) \<Longrightarrow>
   settings_deleteSync cr cfg args s
     = returns_undefined
         (deleteValueAtKeyPathSync cr cfg (JStr (spec_normalize (arg args 0))) s)"
  by (simp add: settings_deleteSync_def truthy_isKeyPath_valid flattenKeyPath_valid)

lemma settings_setSync_valid:
  "spec_valid_key_path (arg args 0) \<Longrightarrow>
   settings_setSync cr cfg args s
     = returns_undefined
         (setValueAtKeyPathSync cr cfg (JStr (spec_normalize (arg args 0))) (arg args 1) s)"
proof -
  assume v: "spec_valid_key_path (arg args 0)"
  then obtain kp rest where a: "args = kp # rest" "spec_valid_key_path kp"
    using valid_arg_cons by blast
  show ?thesis
    using a by (simp add: settings_setSync_def splice_keyPath_valid)
qed

lemma settings_getSync_shape:
  "settings_getSync cr cfg args s
     = getValueAtKeyPathSync cr cfg (arg (splice_keyPath args) 0) s"
  by (simp add: settings_getSync_def)

text \<open>A successful blocking call that loads: the document it loaded, and what came after.\<close>

lemma run_sync_loaded:
  assumes "loads op args" and "run_sync op cr cfg args s = (Inr r, s')"
  shows "\<exists>obj s1 evs. loadSettingsSync cr cfg s = (Inr obj, s1) \<and> later s1 s' evs"
proof (cases op)
  case OpGet
  then have "getValueAtKeyPathSync cr cfg (arg (splice_keyPath args) 0) s = (Inr r, s')"
    using assms(2) by (simp add: settings_getSync_shape)
  then obtain obj where "loadSettingsSync cr cfg s = (Inr obj, s')"
    using getValueAtKeyPathSync_ok by blast
  then show ?thesis using later_refl by blast
next
  case OpHas
  then have "hasKeyPathSync cr cfg (JStr (spec_normalize (arg args 0))) s = (Inr r, s')"
    using assms by (simp add: settings_hasSync_valid)
  then obtain obj where "loadSettingsSync cr cfg s = (Inr obj, s')"
    using hasKeyPathSync_ok by blast
  then show ?thesis using later_refl by blast
next
  case OpSet
  let ?k = "JStr (spec_normalize (arg args 0))"
  have "setValueAtKeyPathSync cr cfg ?k (arg args 1) s = (None, s')"
    using assms OpSet by (simp add: settings_setSync_valid returns_undefined_ok)
  moreover have "truthy ?k" using assms(1) OpSet by simp
  ultimately obtain obj s1 where
      "loadSettingsSync cr cfg s = (Inr obj, s1)"
      "saveSettingsSync cr cfg (keyPathHelpers_setValueAtKeyPath obj (the_string ?k) (arg args 1)) s1
         = (None, s')"
    using setValueAtKeyPathSync_ok by blast
  then show ?thesis using saveSettingsSync_later by blast
next
  case OpDelete
  let ?k = "JStr (spec_normalize (arg args 0))"
  have "deleteValueAtKeyPathSync cr cfg ?k s = (None, s')"
    using assms OpDelete by (simp add: settings_deleteSync_valid returns_undefined_ok)
  then obtain obj s1 where
      "loadSettingsSync cr cfg s = (Inr obj, s1)"
      "saveSettingsSync cr cfg (keyPathHelpers_deleteValueAtKeyPath obj (the_string ?k)) s1
         = (None, s')"
    using deleteValueAtKeyPathSync_ok by blast
  then show ?thesis using saveSettingsSync_later by blast
qed

lemma run_sync_creates:
  assumes "file_stat s = Some e" and "is_ENOENT e"
    and "loads op args" and "run_sync op cr cfg args s = (Inr r, s')"
  shows "creates_empty_first cr cfg s s'"
proof -
  obtain obj s1 evs where l: "loadSettingsSync cr cfg s = (Inr obj, s1)" "later s1 s' evs"
    using run_sync_loaded [OF assms(3,4)] by blast
  show ?thesis
    using creates_later [OF load_missing_creates [OF assms(1,2) l(1)] l(2)] .
qed

lemma run_sync_file_exists:
  assumes "run_sync op cr cfg args s = (Inr r, s')"
  shows "file_stat s' = None"
proof (cases op)
  case OpGet
  then have "getValueAtKeyPathSync cr cfg (arg (splice_keyPath args) 0) s = (Inr r, s')"
    using assms by (simp add: settings_getSync_shape)
  then obtain obj where "loadSettingsSync cr cfg s = (Inr obj, s')"
    using getValueAtKeyPathSync_ok by blast
  then show ?thesis using loadSettingsSync_ok by blast
next
  case OpHas
  then have v: "spec_valid_key_path (arg args 0)"
    using assms by (auto simp: settings_hasSync_def truthy_isKeyPath_valid split: if_splits)
  then have "hasKeyPathSync cr cfg (JStr (spec_normalize (arg args 0))) s = (Inr r, s')"
    using assms OpHas by (simp add: settings_hasSync_valid)
  then obtain obj where "loadSettingsSync cr cfg s = (Inr obj, s')"
    using hasKeyPathSync_ok by blast
  then show ?thesis using loadSettingsSync_ok by blast
next
  case OpSet
  let ?a = "splice_keyPath args"
  have "returns_undefined (setValueAtKeyPathSync cr cfg (arg ?a 0) (arg ?a 1) s) = (Inr r, s')"
    using assms unfolding OpSet run_sync.simps settings_setSync_def Let_def .
  then have sv: "setValueAtKeyPathSync cr cfg (arg ?a 0) (arg ?a 1) s = (None, s')"
    by (rule returns_undefined_ok)
  show ?thesis
  proof (cases "truthy (arg ?a 0)")
    case True
    then obtain obj s1 where
        "saveSettingsSync cr cfg
           (keyPathHelpers_setValueAtKeyPath obj (the_string (arg ?a 0)) (arg ?a 1)) s1
         = (None, s')"
      using setValueAtKeyPathSync_ok [OF sv] by blast
    then show ?thesis using saveSettingsSync_ok by blast
  next
    case False
    then have "saveSettingsSync cr cfg (arg ?a 1) s = (None, s')"
      using sv by (simp add: setValueAtKeyPathSync_def)
    then show ?thesis using saveSettingsSync_ok by blast
  qed
next
  case OpDelete
  then have v: "spec_valid_key_path (arg args 0)"
    using assms by (auto simp: settings_deleteSync_def truthy_isKeyPath_valid split: if_splits)
  then have "deleteValueAtKeyPathSync cr cfg (JStr (spec_normalize (arg args 0))) s = (None, s')"
    using assms OpDelete by (simp add: settings_deleteSync_valid returns_undefined_ok)
  then obtain obj s1 where
      "saveSettingsSync cr cfg
         (keyPathHelpers_deleteValueAtKeyPath obj (the_string (JStr (spec_normalize (arg args 0))))) s1
       = (None, s')"
    using deleteValueAtKeyPathSync_ok by blast
  then show ?thesis using saveSettingsSync_ok by blast
qed

lemma run_sync_stat_fails:
  assumes "file_stat s = Some e" and "\<not> is_ENOENT e" and "loads op args"
  shows "run_sync op cr cfg args s = (Inl e, log StatFile s)"
proof -
  have l: "loadSettingsSync cr cfg s = (Inl e, log StatFile s)"
    using assms(1,2) by (rule loadSettingsSync_stat_fails)
  show ?thesis
  proof (cases op)
    case OpGet
    then show ?thesis using l by (simp add: settings_getSync_shape getValueAtKeyPathSync_def)
  next
    case OpHas
    then show ?thesis using l assms(3) by (simp add: settings_hasSync_valid hasKeyPathSync_def)
  next
    case OpSet
    then show ?thesis using l assms(3)
      by (simp add: settings_setSync_valid setValueAtKeyPathSync_def)
  next
    case OpDelete
    then show ?thesis using l assms(3)
      by (simp add: settings_deleteSync_valid deleteValueAtKeyPathSync_def)
  qed
qed

text \<open>
  C7, as the code has it. When the file is missing, making sure it is there is a full
  save of the empty object, after which the file is there and holds the encoding of
  the empty object; every call that loads the document (\<^verbatim>\<open>get\<close>, \<^verbatim>\<open>has\<close> and
  \<^verbatim>\<open>delete\<close> with a valid key path, \<^verbatim>\<open>set\<close> with a key path that is not empty), in
  either convention, writes that encoding before anything else it writes. A failure of
  the \<^verbatim>\<open>stat\<close> of the file other than file-not-found is the error of the call, and
  nothing else is done. After every call that completes without an error the file is
  there.
\<close>

theorem C7_file_created_on_first_use:
  "(file_stat s = Some e \<and> is_ENOENT e \<longrightarrow>
      ensureSettingsFileSync cr cfg s = saveSettingsSync cr cfg (JObj []) (log StatFile s)
      \<and> (safe fn \<longrightarrow>
           ensureSettingsFile cr cfg fn s
             = lift0 fn (saveSettingsSync cr cfg (JObj []) (log StatFile s)))
      \<and> (ensureSettingsFileSync cr cfg s = (None, s1) \<longrightarrow>
           (\<exists>bytes. prepareSettingsData cr cfg (JObj []) = Inr (Some bytes)
              \<and> file_stat s1 = None \<and> file_data s1 = bytes))
      \<and> (loads op args \<longrightarrow> run_sync op cr cfg args s = (Inr r, s') \<longrightarrow>
           creates_empty_first cr cfg s s')
      \<and> (loads op args \<longrightarrow> run_async op cr cfg args s = (Called None r, s') \<longrightarrow>
           creates_empty_first cr cfg s s'))
   \<and> (file_stat s = Some e \<and> \<not> is_ENOENT e \<longrightarrow>
        ensureSettingsFileSync cr cfg s = (Some e, log StatFile s)
        \<and> (safe fn \<longrightarrow> ensureSettingsFile cr cfg fn s = fn (Some e) JUndefined (log StatFile s))
        \<and> (loads op args \<longrightarrow> run_sync op cr cfg args s = (Inl e, log StatFile s)))
   \<and> (run_sync op cr cfg args s = (Inr r, s') \<longrightarrow> file_stat s' = None)
   \<and> (run_async op cr cfg args s = (Called None r, s') \<longrightarrow> file_stat s' = None)"
proof -
  have a1: "file_stat s = Some e \<Longrightarrow> is_ENOENT e \<Longrightarrow>
      ensureSettingsFileSync cr cfg s = saveSettingsSync cr cfg (JObj []) (log StatFile s)"
    by (rule ensureSettingsFileSync_missing)
  have a2: "file_stat s = Some e \<Longrightarrow> is_ENOENT e \<Longrightarrow> safe fn \<Longrightarrow>
      ensureSettingsFile cr cfg fn s
        = lift0 fn (saveSettingsSync cr cfg (JObj []) (log StatFile s))"
    by (simp add: ensureSettingsFile_sync ensureSettingsFileSync_missing)
  have a3: "file_stat s = Some e \<Longrightarrow> is_ENOENT e \<Longrightarrow>
      ensureSettingsFileSync cr cfg s = (None, s1) \<Longrightarrow>
      \<exists>bytes. prepareSettingsData cr cfg (JObj []) = Inr (Some bytes)
         \<and> file_stat s1 = None \<and> file_data s1 = bytes"
    using ensure_missing_ok [of s e cr cfg s1] by blast
  have a4: "file_stat s = Some e \<Longrightarrow> is_ENOENT e \<Longrightarrow> loads op args \<Longrightarrow>
      run_sync op cr cfg args s = (Inr r, s') \<Longrightarrow> creates_empty_first cr cfg s s'"
    by (rule run_sync_creates)
  have a5: "file_stat s = Some e \<Longrightarrow> is_ENOENT e \<Longrightarrow> loads op args \<Longrightarrow>
      run_async op cr cfg args s = (Called None r, s') \<Longrightarrow> creates_empty_first cr cfg s s'"
    using run_sync_creates [of s e op args cr cfg r s'] run_async_called [of op cr cfg args s r s']
    by blast
  have b1: "file_stat s = Some e \<Longrightarrow> \<not> is_ENOENT e \<Longrightarrow>
      ensureSettingsFileSync cr cfg s = (Some e, log StatFile s)"
    by (rule ensureSettingsFileSync_stat_fails)
  have b2: "file_stat s = Some e \<Longrightarrow> \<not> is_ENOENT e \<Longrightarrow> safe fn \<Longrightarrow>
      ensureSettingsFile cr cfg fn s = fn (Some e) JUndefined (log StatFile s)"
    by (simp add: ensureSettingsFile_sync ensureSettingsFileSync_stat_fails)
  have b3: "file_stat s = Some e \<Longrightarrow> \<not> is_ENOENT e \<Longrightarrow> loads op args \<Longrightarrow>
      run_sync op cr cfg args s = (Inl e, log StatFile s)"
    by (rule run_sync_stat_fails)
  have c1: "run_sync op cr cfg args s = (Inr r, s') \<Longrightarrow> file_stat s' = None"
    by (rule run_sync_file_exists)
  have c2: "run_async op cr cfg args s = (Called None r, s') \<Longrightarrow> file_stat s' = None"
    using run_sync_file_exists [of op cr cfg args s r s'] run_async_called [of op cr cfg args s r s']
    by blast
  show ?thesis using a1 a2 a3 a4 a5 b1 b2 b3 c1 c2 by blast
qed

theorem C7_witness:
  "file_stat fresh_store = Some ENOENT \<and> is_ENOENT ENOENT
   \<and> loads OpGet [JStr ''foo'']
   \<and> run_sync OpGet test_crypto defaults [JStr ''foo''] fresh_store
       = (Inr JUndefined,
          fresh_store\<lparr>dir_stat := None, file_stat := None, file_data := ''{}'',
            trace := [StatFile, StatDir, Mkdirp, WriteFile True ''{}'', ReadFile]\<rparr>)
   \<and> creates_empty_first test_crypto defaults fresh_store
       (fresh_store\<lparr>dir_stat := None, file_stat := None, file_data := ''{}'',
          trace := [StatFile, StatDir, Mkdirp, WriteFile True ''{}'', ReadFile]\<rparr>)
   \<and> file_stat (fresh_store\<lparr>file_stat := Some (SystemError ''EACCES'')\<rparr>)
       = Some (SystemError ''EACCES'')
   \<and> \<not> is_ENOENT (SystemError ''EACCES'')
   \<and> run_sync OpGet test_crypto defaults [JStr ''foo'']
        (fresh_store\<lparr>file_stat := Some (SystemError ''EACCES'')\<rparr>)
       = (Inl (SystemError ''EACCES''),
          log StatFile (fresh_store\<lparr>file_stat := Some (SystemError ''EACCES'')\<rparr>))"
proof -
  let ?s' = "fresh_store\<lparr>dir_stat := None, file_stat := None, file_data := ''{}'',
            trace := [StatFile, StatDir, Mkdirp, WriteFile True ''{}'', ReadFile]\<rparr>"
  let ?bad = "fresh_store\<lparr>file_stat := Some (SystemError ''EACCES'')\<rparr>"
  have h1: "file_stat fresh_store = Some ENOENT \<and> is_ENOENT ENOENT"
    by (simp add: fresh_store_def ENOENT_def)
  have h2: "loads OpGet [JStr ''foo'']" by simp
  have h3: "run_sync OpGet test_crypto defaults [JStr ''foo''] fresh_store = (Inr JUndefined, ?s')"
    by code_simp
  have h4: "file_stat ?bad = Some (SystemError ''EACCES'') \<and> \<not> is_ENOENT (SystemError ''EACCES'')"
    by simp
  have c: "creates_empty_first test_crypto defaults fresh_store ?s'"
    using C7_file_created_on_first_use
            [of fresh_store ENOENT test_crypto defaults "callback JFun" fresh_store
                OpGet "[JStr ''foo'']" JUndefined ?s']
          h1 h2 h3
    by blast
  have d: "run_sync OpGet test_crypto defaults [JStr ''foo''] ?bad
      = (Inl (SystemError ''EACCES''), log StatFile ?bad)"
    using C7_file_created_on_first_use
            [of ?bad "SystemError ''EACCES''" test_crypto defaults "callback JFun" fresh_store
                OpGet "[JStr ''foo'']" JUndefined ?s']
          h4 h2
    by blast
  show ?thesis using h1 h2 h3 h4 c d by blast
qed

text \<open>
  C7 as stated fails for a \<^verbatim>\<open>set\<close> of the whole document: on a fresh store,
  \<^verbatim>\<open>setSync({foo: 'bar'})\<close> completes, and the only write is the given document; the
  file is never initialized with the empty object.
\<close>

theorem C7_counterexample:
  "fst (settings_setSync test_crypto defaults [JObj [(''foo'', JStr ''bar'')]] fresh_store)
     = Inr JUndefined
   \<and> trace (snd (settings_setSync test_crypto defaults [JObj [(''foo'', JStr ''bar'')]] fresh_store))
     = [StatDir, Mkdirp,
        WriteFile True ([CHR ''{'', DQ] @ ''foo'' @ [DQ] @ '':'' @ [DQ] @ ''bar'' @ [DQ, CHR ''}''])]
   \<and> prepareSettingsData test_crypto defaults (JObj []) = Inr (Some ''{}'')
   \<and> first_write (trace (snd (settings_setSync test_crypto defaults
        [JObj [(''foo'', JStr ''bar'')]] fresh_store)))
     \<noteq> Some ''{}''"
  by code_simp

section \<open>Reading back what was set\<close>






end
